theory Spec2Isabelle
  imports Main "HOL-Library.Word"
begin

section \<open>Python strings and dictionaries\<close>

text \<open>
  The voice-command pipeline of \<^verbatim>\<open>SpokyAI/ai/voice_recognition.py\<close> works on Python
  strings. A \<^typ>\<open>string\<close> is a list of 8-bit characters, read as the code points
  below 256: \<^verbatim>\<open>str.lower\<close> maps the letters A..Z to a..z and the upper-case letters
  U+00C0..U+00DE (without the sign U+00D7) to the letters 32 places on, and keeps every
  other character; \<^verbatim>\<open>str.strip\<close> removes the characters for which \<^verbatim>\<open>str.isspace\<close>
  holds (code points 9..13, 28..31, 32, 0x85 and 0xA0) from both ends.
\<close>

definition uppercase :: string where
  "uppercase =
     ''ABCDEFGHIJKLMNOPQRSTUVWXYZ'' @
     [CHR 0xC0, CHR 0xC1, CHR 0xC2, CHR 0xC3, CHR 0xC4, CHR 0xC5, CHR 0xC6, CHR 0xC7,
      CHR 0xC8, CHR 0xC9, CHR 0xCA, CHR 0xCB, CHR 0xCC, CHR 0xCD, CHR 0xCE, CHR 0xCF,
      CHR 0xD0, CHR 0xD1, CHR 0xD2, CHR 0xD3, CHR 0xD4, CHR 0xD5, CHR 0xD6,
      CHR 0xD8, CHR 0xD9, CHR 0xDA, CHR 0xDB, CHR 0xDC, CHR 0xDD, CHR 0xDE]"

definition lowercase :: string where
  "lowercase =
     ''abcdefghijklmnopqrstuvwxyz'' @
     [CHR 0xE0, CHR 0xE1, CHR 0xE2, CHR 0xE3, CHR 0xE4, CHR 0xE5, CHR 0xE6, CHR 0xE7,
      CHR 0xE8, CHR 0xE9, CHR 0xEA, CHR 0xEB, CHR 0xEC, CHR 0xED, CHR 0xEE, CHR 0xEF,
      CHR 0xF0, CHR 0xF1, CHR 0xF2, CHR 0xF3, CHR 0xF4, CHR 0xF5, CHR 0xF6,
      CHR 0xF8, CHR 0xF9, CHR 0xFA, CHR 0xFB, CHR 0xFC, CHR 0xFD, CHR 0xFE]"

definition lower_char :: "char \<Rightarrow> char" where
  "lower_char c =
     (case map_of (zip uppercase lowercase) c of
        None \<Rightarrow> c
      | Some l \<Rightarrow> l)"

definition lower :: "string \<Rightarrow> string" where
  "lower s = map lower_char s"

definition whitespace :: string where
  "whitespace =
     [CHR 0x09, CHR 0x0A, CHR 0x0B, CHR 0x0C, CHR 0x0D,
      CHR 0x1C, CHR 0x1D, CHR 0x1E, CHR 0x1F, CHR 0x20, CHR 0x85, CHR 0xA0]"

definition isspace :: "char \<Rightarrow> bool" where
  "isspace c = (c \<in> set whitespace)"

definition strip :: "string \<Rightarrow> string" where
  "strip s = rev (dropWhile isspace (rev (dropWhile isspace s)))"

text \<open>\<^verbatim>\<open>a.startswith(b)\<close> and the substring test \<^verbatim>\<open>sub in s\<close> of Python.\<close>

fun startswith :: "string \<Rightarrow> string \<Rightarrow> bool" where
  "startswith s [] = True"
| "startswith [] (c # sub) = False"
| "startswith (d # s) (c # sub) = (d = c \<and> startswith s sub)"

fun str_in :: "string \<Rightarrow> string \<Rightarrow> bool" where
  "str_in sub [] = (sub = [])"
| "str_in sub (c # s) = (startswith (c # s) sub \<or> str_in sub s)"

text \<open>\<^verbatim>\<open>sep.join(xs)\<close>.\<close>

fun join :: "string \<Rightarrow> string list \<Rightarrow> string" where
  "join sep [] = []"
| "join sep [x] = x"
| "join sep (x # y # ys) = x @ sep @ join sep (y # ys)"

text \<open>
  A Python \<^verbatim>\<open>dict\<close> keeps its keys in insertion order, and assigning to a key that is
  present replaces the value where the key stands. It is an association list, assigned
  to with \<open>dict_setitem\<close>; \<open>dict_get\<close> is \<^verbatim>\<open>d.get(k)\<close>, which is \<open>None\<close> exactly
  when \<^verbatim>\<open>k in d\<close> is false.
\<close>

type_synonym ('k, 'v) dict = "('k \<times> 'v) list"

fun dict_setitem :: "('k, 'v) dict \<Rightarrow> 'k \<Rightarrow> 'v \<Rightarrow> ('k, 'v) dict" where
  "dict_setitem [] k v = [(k, v)]"
| "dict_setitem ((k', v') # d) k v =
     (if k' = k then (k, v) # d else (k', v') # dict_setitem d k v)"

fun dict_get :: "('k, 'v) dict \<Rightarrow> 'k \<Rightarrow> 'v option" where
  "dict_get [] k = None"
| "dict_get ((k', v') # d) k = (if k' = k then Some v' else dict_get d k)"

definition keys :: "('k, 'v) dict \<Rightarrow> 'k list" where
  "keys d = map fst d"

section \<open>Effects\<close>

text \<open>
  What a method does beyond changing the object is a list of events, in the order of the
  calls: a record handed to the module's logger (with its level), the call of a command
  handler, and the calls into PyAudio and \<^verbatim>\<open>threading\<close>. A command handler is an
  opaque callable, named by a value of type \<open>'h\<close>; \<open>PaOpen rate frames\<close> is
  \<^verbatim>\<open>PyAudio.open\<close> with its \<^verbatim>\<open>rate\<close> and \<^verbatim>\<open>frames_per_buffer\<close>, the stream events carry the
  handle of the stream, and \<open>ThreadStart\<close> is the start of a worker thread that runs
  \<^verbatim>\<open>_process_audio\<close>. A log record keeps the fixed words of its message and the text
  that is formatted into it; where the source formats an object (a path, a result, an
  exception, a status), the record stops at the fixed words.
\<close>

datatype level = DEBUG | INFO | WARNING | ERROR

datatype 'h event =
    Log level string
  | Invoke 'h
  | PaOpen int int
  | StartStream nat
  | StopStream nat
  | CloseStream nat
  | PaTerminate
  | ThreadStart

datatype pyexn =
    ImportError string
  | OSError string
  | AttributeError string
  | WaveError string
  | RuntimeError string

text \<open>
  A recognition result is the JSON object of the decoder after \<^verbatim>\<open>json.loads\<close>; the
  pipeline reads its fields \<^verbatim>\<open>text\<close> and \<^verbatim>\<open>partial\<close>, which hold strings.
\<close>

type_synonym result = "(string, string) dict"

section \<open>VoiceCommandHandler\<close>

text \<open>
  \<^verbatim>\<open>self.commands\<close>, the registry from phrase to handler.
\<close>

type_synonym 'h commands = "(string, 'h) dict"

text \<open>\<^verbatim>\<open>register_command\<close>: \<^verbatim>\<open>self.commands[command.lower()] = handler\<close>, then an info record.\<close>

definition register_command :: "'h commands \<Rightarrow> string \<Rightarrow> 'h \<Rightarrow> 'h event list \<times> 'h commands" where
  "register_command cmds command handler =
     ([Log INFO (''Registered command: '' @ command)],
      dict_setitem cmds (lower command) handler)"

text \<open>
  The loop over \<^verbatim>\<open>self.commands.items()\<close> of \<^verbatim>\<open>process_result\<close>: the first phrase
  found in the text has its handler called and the method returns; when the items run
  out the method logs that no command was found.
\<close>

fun partial_match :: "'h commands \<Rightarrow> string \<Rightarrow> 'h event list" where
  "partial_match [] text = [Log INFO (''No command found for: '' @ text)]"
| "partial_match ((command, handler) # items) text =
     (if str_in command text
      then [Log INFO (''Executing command (partial match): '' @ command), Invoke handler]
      else partial_match items text)"

text \<open>
  \<^verbatim>\<open>result.get('text', '').lower().strip()\<close>, the local variable \<^verbatim>\<open>text\<close> of
  \<^verbatim>\<open>process_result\<close>.
\<close>

definition recognized_text :: "result \<Rightarrow> string" where
  "recognized_text res =
     strip (lower (case dict_get res ''text'' of None \<Rightarrow> [] | Some t \<Rightarrow> t))"

text \<open>
  \<^verbatim>\<open>process_result\<close>: nothing on an empty text; the handler stored under the text when
  \<^verbatim>\<open>text in self.commands\<close>; the partial matches otherwise.
\<close>

definition process_result :: "'h commands \<Rightarrow> result \<Rightarrow> 'h event list" where
  "process_result cmds res =
     (let text = recognized_text res in
      if text = [] then []
      else [Log INFO (''Processing command: '' @ text)] @
        (case dict_get cmds text of
           Some handler \<Rightarrow> [Log INFO (''Executing command: '' @ text), Invoke handler]
         | None \<Rightarrow> partial_match cmds text))"

text \<open>The handlers a run of events called, in order.\<close>

fun invoked :: "'h event list \<Rightarrow> 'h list" where
  "invoked [] = []"
| "invoked (Invoke h # es) = h # invoked es"
| "invoked (e # es) = invoked es"

section \<open>The decoder and the audio device\<close>

text \<open>
  The Vosk recogniser is outside the repository. Its four methods are parameters: each
  takes the recogniser's internal state \<open>'d\<close> and returns the new state with either
  the value or the exception it raised. \<open>Result\<close>, \<open>PartialResult\<close> and
  \<open>FinalResult\<close> stand for the method followed by \<^verbatim>\<open>json.loads\<close>.
\<close>

type_synonym bytes = "8 word list"

record 'd decoder =
  AcceptWaveform :: "'d \<Rightarrow> bytes \<Rightarrow> (pyexn + bool) \<times> 'd"
  Result :: "'d \<Rightarrow> (pyexn + result) \<times> 'd"
  PartialResult :: "'d \<Rightarrow> (pyexn + result) \<times> 'd"
  FinalResult :: "'d \<Rightarrow> (pyexn + result) \<times> 'd"

text \<open>Python's truth value of \<^verbatim>\<open>d.get(k)\<close> for a string field: present and not empty.\<close>

fun truthy :: "string option \<Rightarrow> bool" where
  "truthy None = False"
| "truthy (Some t) = (t \<noteq> [])"

record pyaudio =
  terminated :: bool

section \<open>VoiceRecognition\<close>

text \<open>
  The attributes of a \<^verbatim>\<open>VoiceRecognition\<close> object. \<open>recognizer\<close> is \<open>None\<close> when
  no model was found; \<open>stream\<close> holds the handle of the open PyAudio stream;
  \<open>audio_queue\<close> is the \<^verbatim>\<open>queue.Queue\<close> of frames, oldest first;
  \<open>processing_thread\<close> is \<open>None\<close> until a worker thread has been made, and then holds
  the callback the thread was made with (a callable of type \<open>'c\<close>, or none).
\<close>

record ('d, 'c) voice_recognition =
  sample_rate :: int
  buffer_size :: int
  is_listening :: bool
  audio_queue :: "bytes list"
  recognizer :: "'d option"
  audio :: "pyaudio option"
  stream :: "nat option"
  processing_thread :: "'c option option"

text \<open>
  \<^verbatim>\<open>__init__\<close>. Whether the imports of \<^verbatim>\<open>vosk\<close> and \<^verbatim>\<open>pyaudio\<close> succeeded and the
  recogniser built from the model that was found (\<open>None\<close> when none was) come from the
  environment.
\<close>

definition init ::
  "bool \<Rightarrow> 'd option \<Rightarrow> int \<Rightarrow> int \<Rightarrow> pyexn + ('h event list \<times> ('d, 'c) voice_recognition)" where
  "init vosk_available model rate bufsize =
     (if \<not> vosk_available
      then Inl (ImportError ''vosk and pyaudio are required for voice recognition'')
      else Inr
        ((case model of
            Some d \<Rightarrow> [Log INFO ''Loading Vosk model from: '']
          | None \<Rightarrow>
              [Log WARNING
                 (''Vosk model not found. Please download a model from '' @
                  ''https://alphacephei.com/vosk/models'')]) @
         [Log INFO ''Voice recognition initialized''],
         \<lparr>sample_rate = rate, buffer_size = bufsize, is_listening = False,
          audio_queue = [], recognizer = model,
          audio = Some \<lparr>terminated = False\<rparr>, stream = None,
          processing_thread = None\<rparr>))"

text \<open>
  \<^verbatim>\<open>start_listening\<close>. \<open>opened\<close> is what \<^verbatim>\<open>self.audio.open(...)\<close> does when it is
  called: the exception it raises or the handle of the new stream. The flag is set
  before the device is opened. \<^verbatim>\<open>start_stream\<close> and \<^verbatim>\<open>Thread.start\<close> are taken to
  return normally.
\<close>

definition start_listening ::
  "('d, 'c) voice_recognition \<Rightarrow> 'c option \<Rightarrow> pyexn + nat \<Rightarrow>
   (pyexn + unit) \<times> 'h event list \<times> ('d, 'c) voice_recognition" where
  "start_listening s callback opened =
     (if recognizer s = None
      then (Inr (), [Log ERROR ''Recognizer not initialized. Cannot start listening.''], s)
      else if is_listening s
      then (Inr (), [Log WARNING ''Already listening''], s)
      else
        (let s1 = s\<lparr>is_listening := True\<rparr> in
         case opened of
           Inl e \<Rightarrow> (Inl e, [PaOpen (sample_rate s1) (buffer_size s1)], s1)
         | Inr h \<Rightarrow>
             (Inr (),
              [PaOpen (sample_rate s1) (buffer_size s1), StartStream h, ThreadStart,
               Log INFO ''Started listening for voice input''],
              s1\<lparr>stream := Some h, processing_thread := Some callback\<rparr>)))"

text \<open>\<^verbatim>\<open>_audio_callback\<close>, called by the device with a frame and a status flag.\<close>

definition audio_callback ::
  "('d, 'c) voice_recognition \<Rightarrow> bytes \<Rightarrow> int \<Rightarrow> 'h event list \<times> ('d, 'c) voice_recognition" where
  "audio_callback s in_data status =
     ((if status \<noteq> 0 then [Log WARNING ''Audio stream status''] else []),
      s\<lparr>audio_queue := audio_queue s @ [in_data]\<rparr>)"

text \<open>
  The body of the loop of \<^verbatim>\<open>_process_audio\<close>, one iteration. \<^verbatim>\<open>queue.get(timeout=1)\<close>
  on an empty queue raises \<^verbatim>\<open>queue.Empty\<close> and the loop continues. An exception of the
  decoder is caught and logged. The callback is a function from the result to the
  events it causes.
\<close>

definition process_audio_body ::
  "'d decoder \<Rightarrow> (result \<Rightarrow> 'h event list) option \<Rightarrow> ('d, 'c) voice_recognition \<Rightarrow>
   'h event list \<times> ('d, 'c) voice_recognition" where
  "process_audio_body dec callback s =
     (case audio_queue s of
        [] \<Rightarrow> ([], s)
      | data # rest \<Rightarrow>
          (let s1 = s\<lparr>audio_queue := rest\<rparr> in
           case recognizer s1 of
             None \<Rightarrow> ([Log ERROR ''Error processing audio''], s1)
           | Some d \<Rightarrow>
               (case AcceptWaveform dec d data of
                  (Inl e, d1) \<Rightarrow>
                    ([Log ERROR ''Error processing audio''], s1\<lparr>recognizer := Some d1\<rparr>)
                | (Inr True, d1) \<Rightarrow>
                    (case Result dec d1 of
                       (Inl e, d2) \<Rightarrow>
                         ([Log ERROR ''Error processing audio''], s1\<lparr>recognizer := Some d2\<rparr>)
                     | (Inr res, d2) \<Rightarrow>
                         ([Log INFO ''Recognition result''] @
                          (case callback of
                             Some cb \<Rightarrow> if truthy (dict_get res ''text'') then cb res else []
                           | None \<Rightarrow> []),
                          s1\<lparr>recognizer := Some d2\<rparr>))
                | (Inr False, d1) \<Rightarrow>
                    (case PartialResult dec d1 of
                       (Inl e, d2) \<Rightarrow>
                         ([Log ERROR ''Error processing audio''], s1\<lparr>recognizer := Some d2\<rparr>)
                     | (Inr partial, d2) \<Rightarrow>
                         ((case dict_get partial ''partial'' of
                             Some p \<Rightarrow> if p \<noteq> [] then [Log DEBUG (''Partial result: '' @ p)] else []
                           | None \<Rightarrow> []),
                          s1\<lparr>recognizer := Some d2\<rparr>)))))"

text \<open>
  \<^verbatim>\<open>_process_audio\<close>: the loop \<^verbatim>\<open>while self.is_listening\<close>. The worker runs until
  another thread clears the flag, so the loop need not end; \<open>n\<close> bounds the number of
  iterations that are observed.
\<close>

fun process_audio ::
  "'d decoder \<Rightarrow> (result \<Rightarrow> 'h event list) option \<Rightarrow> nat \<Rightarrow> ('d, 'c) voice_recognition \<Rightarrow>
   'h event list \<times> ('d, 'c) voice_recognition" where
  "process_audio dec callback 0 s = ([], s)"
| "process_audio dec callback (Suc n) s =
     (if is_listening s
      then (case process_audio_body dec callback s of
              (es, s1) \<Rightarrow>
                (case process_audio dec callback n s1 of (es', s2) \<Rightarrow> (es @ es', s2)))
      else ([], s))"

text \<open>
  \<^verbatim>\<open>stop_listening\<close>. \<open>stopped\<close> and \<open>closed\<close> are what \<^verbatim>\<open>stream.stop_stream()\<close>
  and \<^verbatim>\<open>stream.close()\<close> do when they are called: the exception raised, or a normal
  return. Neither call is inside a \<^verbatim>\<open>try\<close>, so an exception leaves the method, after
  the flag has been cleared and before \<^verbatim>\<open>self.stream\<close> is reset.
\<close>

definition stop_listening ::
  "('d, 'c) voice_recognition \<Rightarrow> pyexn + unit \<Rightarrow> pyexn + unit \<Rightarrow>
   (pyexn + unit) \<times> 'h event list \<times> ('d, 'c) voice_recognition" where
  "stop_listening s stopped closed =
     (if \<not> is_listening s then (Inr (), [], s)
      else
        (let s1 = s\<lparr>is_listening := False\<rparr> in
         case stream s1 of
           Some h \<Rightarrow>
             (case stopped of
                Inl e \<Rightarrow> (Inl e, [StopStream h], s1)
              | Inr u \<Rightarrow>
                  (case closed of
                     Inl e \<Rightarrow> (Inl e, [StopStream h, CloseStream h], s1)
                   | Inr u' \<Rightarrow>
                       (Inr (), [StopStream h, CloseStream h, Log INFO ''Stopped listening''],
                        s1\<lparr>stream := None\<rparr>)))
         | None \<Rightarrow> (Inr (), [Log INFO ''Stopped listening''], s1)))"

text \<open>
  \<^verbatim>\<open>cleanup\<close>. \<open>finished\<close> is what \<^verbatim>\<open>self.audio.terminate()\<close> does when it is
  called; an exception of it, or of \<^verbatim>\<open>stop_listening\<close>, leaves the method.
\<close>

definition cleanup ::
  "('d, 'c) voice_recognition \<Rightarrow> pyexn + unit \<Rightarrow> pyexn + unit \<Rightarrow> pyexn + unit \<Rightarrow>
   (pyexn + unit) \<times> 'h event list \<times> ('d, 'c) voice_recognition" where
  "cleanup s stopped closed finished =
     (case stop_listening s stopped closed of
        (Inl e, es, s1) \<Rightarrow> (Inl e, es, s1)
      | (Inr u, es, s1) \<Rightarrow>
          (case audio s1 of
             Some pa \<Rightarrow>
               (case finished of
                  Inl e \<Rightarrow> (Inl e, es @ [PaTerminate], s1)
                | Inr u' \<Rightarrow>
                    (Inr (),
                     es @ [PaTerminate, Log INFO ''Voice recognition cleanup completed''],
                     s1\<lparr>audio := Some (pa\<lparr>terminated := True\<rparr>)\<rparr>))
           | None \<Rightarrow>
               (Inr (), es @ [Log INFO ''Voice recognition cleanup completed''], s1)))"

text \<open>\<^verbatim>\<open>recognize_from_audio\<close>: one block of audio, the final or the partial result.\<close>

definition recognize_from_audio ::
  "'d decoder \<Rightarrow> ('d, 'c) voice_recognition \<Rightarrow> bytes \<Rightarrow> (pyexn + result) \<times> ('d, 'c) voice_recognition" where
  "recognize_from_audio dec s audio_data =
     (case recognizer s of
        None \<Rightarrow> (Inr [(''error'', ''Recognizer not initialized'')], s)
      | Some d \<Rightarrow>
          (case AcceptWaveform dec d audio_data of
             (Inl e, d1) \<Rightarrow> (Inl e, s\<lparr>recognizer := Some d1\<rparr>)
           | (Inr True, d1) \<Rightarrow>
               (case Result dec d1 of (r, d2) \<Rightarrow> (r, s\<lparr>recognizer := Some d2\<rparr>))
           | (Inr False, d1) \<Rightarrow>
               (case PartialResult dec d1 of (r, d2) \<Rightarrow> (r, s\<lparr>recognizer := Some d2\<rparr>))))"

subsection \<open>Recognition from a file\<close>

text \<open>
  What \<^verbatim>\<open>wave.open(file_path, "rb")\<close> gives for a WAV container: the number of
  channels, the sample width in bytes, the frame rate, and the bytes of the data chunk.
  \<^verbatim>\<open>readframes(n)\<close> at byte offset \<open>pos\<close> returns nothing for \<open>n = 0\<close> and else the
  next \<open>n\<close> frames, fewer at the end of the data; the library reads to the end of the
  data when the size is negative.
\<close>

record wave_read =
  nchannels :: int
  sampwidth :: int
  framerate :: int
  frames :: bytes

definition readframes :: "wave_read \<Rightarrow> nat \<Rightarrow> int \<Rightarrow> bytes" where
  "readframes wav pos nframes =
     (if nframes = 0 then []
      else
        (let size = nframes * (nchannels wav * sampwidth wav);
             rest = drop pos (frames wav)
         in if size < 0 then rest else take (nat size) rest))"

text \<open>
  The loop \<^verbatim>\<open>while True\<close> of \<^verbatim>\<open>recognize_from_file\<close>, with the read position of the
  file, the list \<^verbatim>\<open>results\<close> and the state of the recogniser. An exception of the
  recogniser is not caught here and leaves the method.
\<close>

function read_loop ::
  "'d decoder \<Rightarrow> wave_read \<Rightarrow> int \<Rightarrow> nat \<Rightarrow> string list \<Rightarrow> 'd \<Rightarrow> (pyexn + string list) \<times> 'd" where
  "read_loop dec wav bufsize pos results d =
     (let data = readframes wav pos bufsize in
      if length data = 0 then (Inr results, d)
      else
        (case AcceptWaveform dec d data of
           (Inl e, d1) \<Rightarrow> (Inl e, d1)
         | (Inr True, d1) \<Rightarrow>
             (case Result dec d1 of
                (Inl e, d2) \<Rightarrow> (Inl e, d2)
              | (Inr res, d2) \<Rightarrow>
                  (case dict_get res ''text'' of
                     None \<Rightarrow> read_loop dec wav bufsize (pos + length data) results d2
                   | Some t \<Rightarrow>
                       if t \<noteq> []
                       then read_loop dec wav bufsize (pos + length data) (results @ [t]) d2
                       else read_loop dec wav bufsize (pos + length data) results d2))
         | (Inr False, d1) \<Rightarrow> read_loop dec wav bufsize (pos + length data) results d1))"
  by pat_completeness auto
termination
proof -
  have bound: "length (readframes wav pos n) \<le> length (frames wav) - pos"
    for wav :: wave_read and pos n
    by (simp add: readframes_def Let_def)
  have advance:
    "length (frames wav) - (pos + length (readframes wav pos n)) < length (frames wav) - pos"
    if "readframes wav pos n \<noteq> []" for wav :: wave_read and pos n
  proof -
    have "0 < length (readframes wav pos n)" using that by simp
    with bound [of wav pos n] show ?thesis by arith
  qed
  show ?thesis
    by (relation "measure (\<lambda>(dec, wav, bufsize, pos, results, d). length (frames wav) - pos)")
       (auto simp: advance)
qed

text \<open>
  \<^verbatim>\<open>recognize_from_file\<close>. \<open>opened\<close> is what \<^verbatim>\<open>wave.open\<close> does with the path: the
  exception it raises, or the container.
\<close>

definition recognize_from_file ::
  "'d decoder \<Rightarrow> ('d, 'c) voice_recognition \<Rightarrow> pyexn + wave_read \<Rightarrow>
   (pyexn + string) \<times> 'h event list \<times> ('d, 'c) voice_recognition" where
  "recognize_from_file dec s opened =
     (case recognizer s of
        None \<Rightarrow> (Inr [], [], s)
      | Some d \<Rightarrow>
          (case opened of
             Inl e \<Rightarrow> (Inl e, [], s)
           | Inr wav \<Rightarrow>
               if nchannels wav \<noteq> 1 \<or> sampwidth wav \<noteq> 2 \<or> framerate wav \<noteq> sample_rate s
               then (Inr [], [Log ERROR ''Audio file must be WAV format mono PCM.''], s)
               else
                 (case read_loop dec wav (buffer_size s) 0 [] d of
                    (Inl e, d1) \<Rightarrow> (Inl e, [], s\<lparr>recognizer := Some d1\<rparr>)
                  | (Inr results, d1) \<Rightarrow>
                      (case FinalResult dec d1 of
                         (Inl e, d2) \<Rightarrow> (Inl e, [], s\<lparr>recognizer := Some d2\<rparr>)
                       | (Inr final_result, d2) \<Rightarrow>
                           (Inr (join '' ''
                              (case dict_get final_result ''text'' of
                                 None \<Rightarrow> results
                               | Some t \<Rightarrow> if t \<noteq> [] then results @ [t] else results)),
                            [], s\<lparr>recognizer := Some d2\<rparr>)))))"

subsection \<open>The file recognition as the specification words it\<close>

text \<open>
  The specification's reading of the file path: the data is cut into chunks of a fixed
  size, the last one shorter when the data does not divide; the chunks go to the decoder
  in order; the non-empty text of the Final result of every accepted chunk is collected.
\<close>

function chunks :: "nat \<Rightarrow> 'a list \<Rightarrow> 'a list list" where
  "chunks n xs = (if n = 0 \<or> xs = [] then [] else take n xs # chunks n (drop n xs))"
  by pat_completeness auto
termination
  by (relation "measure (\<lambda>(n, xs). length xs)") auto

fun final_texts :: "'d decoder \<Rightarrow> 'd \<Rightarrow> bytes list \<Rightarrow> (pyexn + string list) \<times> 'd" where
  "final_texts dec d [] = (Inr [], d)"
| "final_texts dec d (c # cs) =
     (case AcceptWaveform dec d c of
        (Inl e, d1) \<Rightarrow> (Inl e, d1)
      | (Inr False, d1) \<Rightarrow> final_texts dec d1 cs
      | (Inr True, d1) \<Rightarrow>
          (case Result dec d1 of
             (Inl e, d2) \<Rightarrow> (Inl e, d2)
           | (Inr res, d2) \<Rightarrow>
               (case final_texts dec d2 cs of
                  (Inl e, d3) \<Rightarrow> (Inl e, d3)
                | (Inr ts, d3) \<Rightarrow>
                    (Inr ((case dict_get res ''text'' of
                             None \<Rightarrow> []
                           | Some t \<Rightarrow> if t \<noteq> [] then [t] else []) @ ts), d3))))"

subsection \<open>The states a pipeline can be in\<close>

text \<open>
  The states of a \<^verbatim>\<open>VoiceRecognition\<close> object: what the constructor builds, and what
  any of its methods makes of such a state, whatever the device, the decoder and the
  callers do.
\<close>

definition state_of :: "'a \<times> unit event list \<times> 's \<Rightarrow> 's" where
  "state_of r = snd (snd r)"

inductive reachable :: "'d decoder \<Rightarrow> ('d, 'c) voice_recognition \<Rightarrow> bool" for dec :: "'d decoder" where
  r_init: "init True model rate bufsize = Inr ((es :: unit event list), s) \<Longrightarrow> reachable dec s"
| r_start: "reachable dec s \<Longrightarrow> reachable dec (state_of (start_listening s cb opened))"
| r_stop: "reachable dec s \<Longrightarrow> reachable dec (state_of (stop_listening s stopped closed))"
| r_cleanup: "reachable dec s \<Longrightarrow>
     reachable dec (state_of (cleanup s stopped closed finished))"
| r_frame: "reachable dec s \<Longrightarrow>
     reachable dec (snd (audio_callback s in_data status :: unit event list \<times> _))"
| r_worker: "reachable dec s \<Longrightarrow>
     reachable dec (snd (process_audio_body dec (callback :: (result \<Rightarrow> unit event list) option) s))"
| r_audio: "reachable dec s \<Longrightarrow> reachable dec (snd (recognize_from_audio dec s audio_data))"
| r_file: "reachable dec s \<Longrightarrow> reachable dec (state_of (recognize_from_file dec s opened))"

subsection \<open>Counting device calls\<close>

text \<open>The number of streams opened and of worker threads started in a run of events.\<close>

fun opens :: "'h event list \<Rightarrow> nat" where
  "opens [] = 0"
| "opens (PaOpen rate n # es) = Suc (opens es)"
| "opens (e # es) = opens es"

fun thread_starts :: "'h event list \<Rightarrow> nat" where
  "thread_starts [] = 0"
| "thread_starts (ThreadStart # es) = Suc (thread_starts es)"
| "thread_starts (e # es) = thread_starts es"

subsection \<open>A decoder to run the pipeline on\<close>

text \<open>
  A small decoder for running the pipeline on concrete input. Its state counts the blocks
  of the utterance heard so far. A block that ends in a zero byte ends the utterance and
  is accepted; the final result of a non-empty utterance is a fixed phrase.
\<close>

definition example_decoder :: "nat decoder" where
  "example_decoder =
     \<lparr>AcceptWaveform = (\<lambda>d data. (Inr (data \<noteq> [] \<and> last data = 0), Suc d)),
      Result = (\<lambda>d. (Inr [(''text'', if d \<le> 1 then [] else ''Hello Spoky'')], 0)),
      PartialResult = (\<lambda>d. (Inr [(''partial'', ''hello'')], d)),
      FinalResult = (\<lambda>d. (Inr [(''text'', if d = 0 then [] else ''goodbye spoky'')], 0))\<rparr>"

text \<open>
  A pipeline with a recogniser that is not listening, and a mono 16-bit file of fourteen
  bytes at its sample rate.
\<close>

definition idle_state :: "(nat, nat) voice_recognition" where
  "idle_state = \<lparr>sample_rate = 16000, buffer_size = 4000, is_listening = False,
     audio_queue = [], recognizer = Some 0, audio = Some \<lparr>terminated = False\<rparr>,
     stream = None, processing_thread = None\<rparr>"

definition example_wav :: wave_read where
  "example_wav = \<lparr>nchannels = 1, sampwidth = 2, framerate = 16000,
     frames = [1, 1, 1, 1, 2, 2, 2, 0, 3, 0, 3, 0, 5, 5]\<rparr>"

declare read_loop.simps [simp del] chunks.simps [simp del]

section \<open>Properties of the command router\<close>

subsection \<open>Strings and dictionaries\<close>

lemma startswith_iff: "startswith s sub \<longleftrightarrow> (\<exists>q. s = sub @ q)"
  by (induction s sub rule: startswith.induct) auto

lemma dict_get_None_iff: "dict_get d k = None \<longleftrightarrow> k \<notin> set (keys d)"
  by (induction d k rule: dict_get.induct) (auto simp: keys_def)

lemma invoked_partial_match_none:
  "\<forall>i < length cmds. \<not> str_in (fst (cmds ! i)) t \<Longrightarrow> invoked (partial_match cmds t) = []"
proof (induction cmds)
  case Nil
  then show ?case by simp
next
  case (Cons a cmds)
  obtain c h where a: "a = (c, h)" by (cases a)
  from Cons.prems have "\<not> str_in c t" using a by force
  moreover from Cons.prems have "\<forall>i < length cmds. \<not> str_in (fst (cmds ! i)) t" by force
  ultimately show ?case using Cons.IH a by simp
qed

lemma invoked_partial_match_first:
  "i < length cmds \<Longrightarrow> str_in (fst (cmds ! i)) t \<Longrightarrow>
   \<forall>j < i. \<not> str_in (fst (cmds ! j)) t \<Longrightarrow>
   invoked (partial_match cmds t) = [snd (cmds ! i)]"
proof (induction cmds arbitrary: i)
  case Nil
  then show ?case by simp
next
  case (Cons a cmds)
  obtain c h where a: "a = (c, h)" by (cases a)
  show ?case
  proof (cases i)
    case 0
    with Cons.prems a show ?thesis by simp
  next
    case (Suc k)
    with Cons.prems have "\<not> str_in c t" using a by force
    moreover have "invoked (partial_match cmds t) = [snd (cmds ! k)]"
    proof -
      have "k < length cmds" using Cons.prems Suc by simp
      moreover have "str_in (fst (cmds ! k)) t" using Cons.prems Suc by simp
      moreover have "\<forall>j<k. \<not> str_in (fst (cmds ! j)) t" using Cons.prems(3) Suc by force
      ultimately show ?thesis by (rule Cons.IH)
    qed
    ultimately show ?thesis using a Suc by simp
  qed
qed

lemma length_invoked_partial_match: "length (invoked (partial_match cmds t)) \<le> 1"
  by (induction cmds t rule: partial_match.induct) auto

lemma invoked_process_result_empty:
  "recognized_text res = [] \<Longrightarrow> invoked (process_result cmds res) = []"
  by (simp add: process_result_def Let_def)

lemma invoked_process_result_exact:
  "recognized_text res \<noteq> [] \<Longrightarrow> dict_get cmds (recognized_text res) = Some h \<Longrightarrow>
   invoked (process_result cmds res) = [h]"
  by (simp add: process_result_def Let_def)

lemma invoked_process_result_partial:
  "recognized_text res \<noteq> [] \<Longrightarrow> dict_get cmds (recognized_text res) = None \<Longrightarrow>
   invoked (process_result cmds res) = invoked (partial_match cmds (recognized_text res))"
  by (simp add: process_result_def Let_def)

lemma length_invoked_process_result: "length (invoked (process_result cmds res)) \<le> 1"
proof (cases "recognized_text res = []")
  case True
  then show ?thesis by (simp add: invoked_process_result_empty)
next
  case False
  show ?thesis
  proof (cases "dict_get cmds (recognized_text res)")
    case None
    with False have "invoked (process_result cmds res) =
        invoked (partial_match cmds (recognized_text res))"
      by (simp add: invoked_process_result_partial)
    then show ?thesis using length_invoked_partial_match [of cmds "recognized_text res"]
      by simp
  next
    case (Some h)
    with False show ?thesis by (simp add: invoked_process_result_exact)
  qed
qed

subsection \<open>Dispatch\<close>

text \<open>
  Claim C1. \<^verbatim>\<open>process_result\<close> normalises the text of the result (lower case, then
  strip). On an empty text no handler is called. When the text is a key of the registry,
  the handler stored under it is called, and nothing else. Otherwise the registry is gone
  through in its order, and the handler of the first phrase that occurs in the text is
  called; when no phrase occurs in it, none is. In every case at most one handler is
  called.
\<close>

theorem process_result_dispatch:
  "(recognized_text res = [] \<longrightarrow> invoked (process_result cmds res) = []) \<and>
   (recognized_text res \<noteq> [] \<longrightarrow>
      (\<forall>h. dict_get cmds (recognized_text res) = Some h \<longrightarrow>
           invoked (process_result cmds res) = [h])) \<and>
   (recognized_text res \<noteq> [] \<and> recognized_text res \<notin> set (keys cmds) \<longrightarrow>
      (\<forall>i < length cmds.
          str_in (fst (cmds ! i)) (recognized_text res) \<and>
          (\<forall>j < i. \<not> str_in (fst (cmds ! j)) (recognized_text res)) \<longrightarrow>
          invoked (process_result cmds res) = [snd (cmds ! i)]) \<and>
      ((\<forall>i < length cmds. \<not> str_in (fst (cmds ! i)) (recognized_text res)) \<longrightarrow>
          invoked (process_result cmds res) = [])) \<and>
   length (invoked (process_result cmds res)) \<le> 1"
proof (intro conjI impI allI)
  assume "recognized_text res = []"
  then show "invoked (process_result cmds res) = []"
    by (rule invoked_process_result_empty)
next
  fix h
  assume "recognized_text res \<noteq> []" "dict_get cmds (recognized_text res) = Some h"
  then show "invoked (process_result cmds res) = [h]"
    by (rule invoked_process_result_exact)
next
  fix i
  assume a: "recognized_text res \<noteq> [] \<and> recognized_text res \<notin> set (keys cmds)"
    and i: "i < length cmds"
    and m: "str_in (fst (cmds ! i)) (recognized_text res) \<and>
      (\<forall>j < i. \<not> str_in (fst (cmds ! j)) (recognized_text res))"
  from a have "dict_get cmds (recognized_text res) = None" by (simp add: dict_get_None_iff)
  with a have "invoked (process_result cmds res) =
      invoked (partial_match cmds (recognized_text res))"
    by (simp add: invoked_process_result_partial)
  also have "\<dots> = [snd (cmds ! i)]"
    using i m by (intro invoked_partial_match_first) auto
  finally show "invoked (process_result cmds res) = [snd (cmds ! i)]" .
next
  assume a: "recognized_text res \<noteq> [] \<and> recognized_text res \<notin> set (keys cmds)"
    and m: "\<forall>i < length cmds. \<not> str_in (fst (cmds ! i)) (recognized_text res)"
  from a have "dict_get cmds (recognized_text res) = None" by (simp add: dict_get_None_iff)
  with a have "invoked (process_result cmds res) =
      invoked (partial_match cmds (recognized_text res))"
    by (simp add: invoked_process_result_partial)
  also have "\<dots> = []" using m by (rule invoked_partial_match_none)
  finally show "invoked (process_result cmds res) = []" .
next
  show "length (invoked (process_result cmds res)) \<le> 1"
    by (rule length_invoked_process_result)
qed

theorem process_result_dispatch_witness:
  "recognized_text [(''text'', ''Well hello spoky there '')] = ''well hello spoky there'' \<and>
   ''well hello spoky there'' \<notin> set (keys [(''hello spoky'', 1::nat), (''goodbye spoky'', 2)]) \<and>
   str_in ''hello spoky'' ''well hello spoky there'' \<and>
   invoked (process_result [(''hello spoky'', 1::nat), (''goodbye spoky'', 2)]
      [(''text'', ''Well hello spoky there '')]) = [1] \<and>
   dict_get [(''hello spoky'', 1::nat), (''goodbye spoky'', 2)] ''goodbye spoky'' = Some 2 \<and>
   invoked (process_result [(''hello spoky'', 1::nat), (''goodbye spoky'', 2)]
      [(''text'', ''Goodbye Spoky'')]) = [2] \<and>
   invoked (process_result [(''hello spoky'', 1::nat), (''goodbye spoky'', 2)]
      [(''text'', ''  '')]) = []"
proof -
  let ?cmds = "[(''hello spoky'', 1::nat), (''goodbye spoky'', 2)]"
  let ?r1 = "[(''text'', ''Well hello spoky there '')]"
  let ?r2 = "[(''text'', ''Goodbye Spoky'')]"
  let ?r3 = "[(''text'', ''  '')]"
  have t1: "recognized_text ?r1 = ''well hello spoky there''" by code_simp
  have t2: "recognized_text ?r2 = ''goodbye spoky''" by code_simp
  have t3: "recognized_text ?r3 = []" by code_simp
  have k1: "''well hello spoky there'' \<notin> set (keys ?cmds)" by (simp add: keys_def)
  have s1: "str_in ''hello spoky'' ''well hello spoky there''" by code_simp
  have g2: "dict_get ?cmds ''goodbye spoky'' = Some 2" by simp
  have n1: "recognized_text ?r1 \<noteq> [] \<and> recognized_text ?r1 \<notin> set (keys ?cmds)"
    using t1 k1 by simp
  have m1: "str_in (fst (?cmds ! 0)) (recognized_text ?r1) \<and>
      (\<forall>j < 0. \<not> str_in (fst (?cmds ! j)) (recognized_text ?r1))"
    using t1 s1 by simp
  have l1: "0 < length ?cmds" by simp
  note d1 = process_result_dispatch [of ?r1 ?cmds]
  note p1 = d1 [THEN conjunct2, THEN conjunct2, THEN conjunct1, THEN mp, OF n1,
      THEN conjunct1, THEN spec, of 0, THEN mp, OF l1, THEN mp, OF m1]
  have f1: "invoked (process_result ?cmds ?r1) = [1]"
    using p1 by simp
  have n2: "recognized_text ?r2 \<noteq> []" using t2 by simp
  have g2': "dict_get ?cmds (recognized_text ?r2) = Some 2" using t2 g2 by simp
  note d2 = process_result_dispatch [of ?r2 ?cmds]
  note f2 = d2 [THEN conjunct2, THEN conjunct1, THEN mp, OF n2, THEN spec, of 2, THEN mp, OF g2']
  note d3 = process_result_dispatch [of ?r3 ?cmds]
  note f3 = d3 [THEN conjunct1, THEN mp, OF t3]
  show ?thesis
    by (intro conjI t1 k1 s1 f1 g2 f2 f3)
qed

subsection \<open>Registration\<close>

lemma str_in_iff: "str_in sub s \<longleftrightarrow> (\<exists>p q. s = p @ sub @ q)"
proof (induction s)
  case Nil
  then show ?case by simp
next
  case (Cons c s)
  show ?case
  proof
    assume "str_in sub (c # s)"
    then consider "startswith (c # s) sub" | "str_in sub s" by auto
    then show "\<exists>p q. c # s = p @ sub @ q"
    proof cases
      case 1
      then obtain q where "c # s = sub @ q" by (auto simp: startswith_iff)
      then have "c # s = [] @ sub @ q" by simp
      then show ?thesis by blast
    next
      case 2
      with Cons.IH obtain p q where "s = p @ sub @ q" by blast
      then have "c # s = (c # p) @ sub @ q" by simp
      then show ?thesis by blast
    qed
  next
    assume "\<exists>p q. c # s = p @ sub @ q"
    then obtain p q where pq: "c # s = p @ sub @ q" by blast
    show "str_in sub (c # s)"
    proof (cases p)
      case Nil
      with pq have "startswith (c # s) sub" by (auto simp: startswith_iff)
      then show ?thesis by simp
    next
      case (Cons a p')
      with pq have "s = p' @ sub @ q" by simp
      with Cons.IH have "str_in sub s" by blast
      then show ?thesis by simp
    qed
  qed
qed

lemma str_in_refl: "str_in s s"
proof -
  have "s = [] @ s @ []" by simp
  then show ?thesis unfolding str_in_iff by blast
qed

lemma dict_get_setitem_same: "dict_get (dict_setitem d k v) k = Some v"
  by (induction d k v rule: dict_setitem.induct) auto

lemma dict_get_setitem_other: "k' \<noteq> k \<Longrightarrow> dict_get (dict_setitem d k v) k' = dict_get d k'"
  by (induction d k v rule: dict_setitem.induct) auto

lemma keys_setitem_present: "k \<in> set (keys d) \<Longrightarrow> keys (dict_setitem d k v) = keys d"
  by (induction d k v rule: dict_setitem.induct) (auto simp: keys_def)

lemma set_keys_setitem: "set (keys (dict_setitem d k v)) = insert k (set (keys d))"
  by (induction d k v rule: dict_setitem.induct) (auto simp: keys_def)

lemma setitem_absent: "k \<notin> set (keys d) \<Longrightarrow> dict_setitem d k v = d @ [(k, v)]"
  by (induction d k v rule: dict_setitem.induct) (auto simp: keys_def)

lemma setitem_append: "k \<in> set (keys d) \<Longrightarrow> dict_setitem (d @ e) k v = dict_setitem d k v @ e"
  by (induction d k v rule: dict_setitem.induct) (auto simp: keys_def)

lemma setitem_setitem: "dict_setitem (dict_setitem d k v) k v' = dict_setitem d k v'"
  by (induction d k v rule: dict_setitem.induct) auto

lemma partial_match_append:
  "\<exists>k \<in> set (keys d). str_in k t \<Longrightarrow> partial_match (d @ e) t = partial_match d t"
  by (induction d t rule: partial_match.induct) (auto simp: keys_def)

lemma invoked_partial_match_setitem:
  "str_in k t \<Longrightarrow> \<forall>k' \<in> set (keys d). k' \<noteq> k \<longrightarrow> \<not> str_in k' t \<Longrightarrow>
   invoked (partial_match (dict_setitem d k h) t) = [h]"
  by (induction d k h rule: dict_setitem.induct) (auto simp: keys_def)

lemma dict_get_first:
  "i < length d \<Longrightarrow> fst (d ! i) = k \<Longrightarrow> \<forall>j < i. fst (d ! j) \<noteq> k \<Longrightarrow>
   dict_get d k = Some (snd (d ! i))"
proof (induction d arbitrary: i)
  case Nil
  then show ?case by simp
next
  case (Cons a d)
  obtain k' v' where a: "a = (k', v')" by (cases a)
  show ?case
  proof (cases i)
    case 0
    with Cons.prems a show ?thesis by simp
  next
    case (Suc n)
    with Cons.prems have ne: "k' \<noteq> k" using a by force
    have "n < length d" using Cons.prems Suc by simp
    moreover have "fst (d ! n) = k" using Cons.prems Suc by simp
    moreover have "\<forall>j < n. fst (d ! j) \<noteq> k" using Cons.prems(3) Suc by force
    ultimately have "dict_get d k = Some (snd (d ! n))" by (rule Cons.IH)
    with ne a Suc show ?thesis by simp
  qed
qed

text \<open>
  Claim C2, as the code has it. \<^verbatim>\<open>register_command\<close> stores the handler under the
  phrase in lower case. A result whose normalised text is not empty and equals the stored
  phrase has the registered handler called. A result whose normalised text contains the
  stored phrase and is no key of the registry has the registered handler called when no
  phrase that stands earlier in the registry occurs in the text. The letter case of the
  phrase at registration makes no difference.
\<close>

theorem register_command_lowercase:
  "snd (register_command cmds phrase h) = dict_setitem cmds (lower phrase) h \<and>
   dict_get (snd (register_command cmds phrase h)) (lower phrase) = Some h \<and>
   (recognized_text res \<noteq> [] \<and> recognized_text res = lower phrase \<longrightarrow>
      invoked (process_result (snd (register_command cmds phrase h)) res) = [h]) \<and>
   (recognized_text res \<noteq> [] \<and>
    recognized_text res \<notin> set (keys (snd (register_command cmds phrase h))) \<longrightarrow>
      (\<forall>i < length (snd (register_command cmds phrase h)).
          fst (snd (register_command cmds phrase h) ! i) = lower phrase \<and>
          str_in (lower phrase) (recognized_text res) \<and>
          (\<forall>j < i. \<not> str_in (fst (snd (register_command cmds phrase h) ! j))
                       (recognized_text res)) \<longrightarrow>
          invoked (process_result (snd (register_command cmds phrase h)) res) = [h]))"
proof -
  let ?cmds = "snd (register_command cmds phrase h)"
  let ?t = "recognized_text res"
  have st: "?cmds = dict_setitem cmds (lower phrase) h"
    by (simp add: register_command_def)
  have get: "dict_get ?cmds (lower phrase) = Some h"
    by (simp add: st dict_get_setitem_same)
  have exact: "invoked (process_result ?cmds res) = [h]"
    if "?t \<noteq> [] \<and> ?t = lower phrase"
  proof (rule invoked_process_result_exact)
    show "?t \<noteq> []" using that by blast
    show "dict_get ?cmds ?t = Some h" using that get by metis
  qed
  have part: "invoked (process_result ?cmds res) = [h]"
    if a: "?t \<noteq> [] \<and> ?t \<notin> set (keys ?cmds)" and i: "i < length ?cmds"
      and m: "fst (?cmds ! i) = lower phrase \<and> str_in (lower phrase) ?t \<and>
        (\<forall>j < i. \<not> str_in (fst (?cmds ! j)) ?t)" for i
  proof -
    have first: "\<forall>j < i. fst (?cmds ! j) \<noteq> lower phrase"
      using m by metis
    from i m first have "dict_get ?cmds (lower phrase) = Some (snd (?cmds ! i))"
      by (intro dict_get_first) auto
    with get have h: "snd (?cmds ! i) = h" by simp
    from a have "dict_get ?cmds ?t = None" by (simp add: dict_get_None_iff)
    with a have "invoked (process_result ?cmds res) = invoked (partial_match ?cmds ?t)"
      by (simp add: invoked_process_result_partial)
    also have "\<dots> = [snd (?cmds ! i)]"
      using i m by (intro invoked_partial_match_first) auto
    finally show ?thesis using h by simp
  qed
  show ?thesis
    using st get exact part by blast
qed


theorem register_command_lowercase_witness:
  "recognized_text [(''text'', ''hello spoky'')] = lower ''Hello Spoky'' \<and>
   invoked (process_result (snd (register_command [] ''Hello Spoky'' (1::nat)))
      [(''text'', ''hello spoky'')]) = [1] \<and>
   invoked (process_result (snd (register_command [] ''Hello Spoky'' (1::nat)))
      [(''text'', ''well hello spoky there'')]) = [1]"
proof -
  let ?r = "[(''text'', ''hello spoky'')]"
  let ?r' = "[(''text'', ''well hello spoky there'')]"
  let ?cmds = "snd (register_command [] ''Hello Spoky'' (1::nat))"
  note d = register_command_lowercase [of "[]" "''Hello Spoky''" "1::nat" ?r]
  note d' = register_command_lowercase [of "[]" "''Hello Spoky''" "1::nat" ?r']
  have c: "?cmds = [(''hello spoky'', 1)]"
    by (simp add: register_command_def) code_simp
  have e: "recognized_text ?r \<noteq> [] \<and> recognized_text ?r = lower ''Hello Spoky''"
    by code_simp
  have f: "invoked (process_result ?cmds ?r) = [1]"
    by (rule d [THEN conjunct2, THEN conjunct2, THEN conjunct1, THEN mp, OF e])
  have t': "recognized_text ?r' = ''well hello spoky there''" by code_simp
  have n': "recognized_text ?r' \<noteq> [] \<and> recognized_text ?r' \<notin> set (keys ?cmds)"
    unfolding t' c by (simp add: keys_def)
  have l': "0 < length ?cmds" unfolding c by simp
  have m': "fst (?cmds ! 0) = lower ''Hello Spoky'' \<and>
      str_in (lower ''Hello Spoky'') (recognized_text ?r') \<and>
      (\<forall>j < 0. \<not> str_in (fst (?cmds ! j)) (recognized_text ?r'))"
    unfolding t' c by simp code_simp
  have f': "invoked (process_result ?cmds ?r') = [1]"
    by (rule d' [THEN conjunct2, THEN conjunct2, THEN conjunct2, THEN mp, OF n',
          THEN spec, of 0, THEN mp, OF l', THEN mp, OF m'])
  from e f f' show ?thesis by blast
qed

text \<open>
  Claim C2 as the specification words it does not hold. The phrase is not stripped when it
  is registered: a phrase registered with blanks around it is stored with them, and the
  text that equals the stripped phrase calls no handler. And a text that contains a
  registered phrase calls the handler of an earlier phrase that it contains as well.
\<close>

theorem register_command_strip_counterexample:
  "strip (lower ''  Hello Spoky '') = recognized_text [(''text'', ''hello spoky'')] \<and>
   snd (register_command [] ''  Hello Spoky '' (1::nat)) = [(''  hello spoky '', 1)] \<and>
   invoked (process_result (snd (register_command [] ''  Hello Spoky '' (1::nat)))
      [(''text'', ''hello spoky'')]) = [] \<and>
   str_in (strip (lower ''hello spoky'')) (recognized_text [(''text'', ''well hello spoky there'')]) \<and>
   invoked (process_result
      (snd (register_command (snd (register_command [] ''spoky'' (1::nat))) ''hello spoky'' 2))
      [(''text'', ''well hello spoky there'')]) = [1]"
  by code_simp

text \<open>
  Claim C9. Registering a phrase again keeps its place in the registry and replaces its
  handler. With \<open>p\<close> registered, then a new phrase \<open>q\<close>, then \<open>p\<close> again with the
  handler \<open>h3\<close>: the order of the keys is what it was before the third registration,
  \<open>p\<close> stands before \<open>q\<close>, the handler of \<open>p\<close> is \<open>h3\<close> and that of \<open>q\<close> is
  unchanged; and a text that contains \<open>p\<close> (and is not \<open>q\<close> itself) calls \<open>h3\<close>, also
  when it contains \<open>q\<close>, provided no phrase registered before \<open>p\<close> occurs in it. The
  key of a phrase is the phrase in lower case.
\<close>

theorem reregister_keeps_position:
  assumes pq: "lower p \<noteq> lower q"
    and new: "lower q \<notin> set (keys cmds)"
    and c1: "c1 = snd (register_command cmds p h1)"
    and c2: "c2 = snd (register_command c1 q h2)"
    and c3: "c3 = snd (register_command c2 p h3)"
  shows "keys c3 = keys c2 \<and>
    dict_get c3 (lower p) = Some h3 \<and>
    dict_get c3 (lower q) = Some h2 \<and>
    (\<exists>i j. i < j \<and> j < length c3 \<and> fst (c3 ! i) = lower p \<and> fst (c3 ! j) = lower q) \<and>
    (recognized_text res \<noteq> [] \<and> recognized_text res \<noteq> lower q \<and>
     str_in (lower p) (recognized_text res) \<and>
     (\<forall>k \<in> set (keys cmds). k \<noteq> lower p \<longrightarrow> \<not> str_in k (recognized_text res)) \<longrightarrow>
       invoked (process_result c3 res) = [h3])"
proof -
  let ?lp = "lower p" and ?lq = "lower q"
  let ?t = "recognized_text res"
  have c1': "c1 = dict_setitem cmds ?lp h1" using c1 by (simp add: register_command_def)
  have p_in: "?lp \<in> set (keys c1)" by (simp add: c1' set_keys_setitem)
  have q_out: "?lq \<notin> set (keys c1)" using pq new by (simp add: c1' set_keys_setitem)
  have c2': "c2 = c1 @ [(?lq, h2)]"
    using c2 q_out by (simp add: register_command_def setitem_absent)
  have c3': "c3 = dict_setitem cmds ?lp h3 @ [(?lq, h2)]"
    using c3 p_in by (simp add: register_command_def c2' setitem_append c1' setitem_setitem)
  have k3: "keys c3 = keys c2"
  proof -
    have "?lp \<in> set (keys c2)" using p_in by (simp add: c2' keys_def)
    then show ?thesis using c3 by (simp add: register_command_def keys_setitem_present)
  qed
  have g3: "dict_get c3 ?lp = Some h3"
    using c3 by (simp add: register_command_def dict_get_setitem_same)
  have g2: "dict_get c3 ?lq = Some h2"
  proof -
    have "dict_get c3 ?lq = dict_get c2 ?lq"
      using c3 pq by (simp add: register_command_def dict_get_setitem_other)
    also have "\<dots> = Some h2" using c2 by (simp add: register_command_def dict_get_setitem_same)
    finally show ?thesis .
  qed
  have order: "\<exists>i j. i < j \<and> j < length c3 \<and> fst (c3 ! i) = ?lp \<and> fst (c3 ! j) = ?lq"
  proof -
    let ?d = "dict_setitem cmds ?lp h3"
    have "?lp \<in> set (keys ?d)" by (simp add: set_keys_setitem)
    then obtain i where i: "i < length ?d" "fst (?d ! i) = ?lp"
      by (auto simp: keys_def in_set_conv_nth)
    have "fst (c3 ! i) = ?lp" using i by (simp add: c3' nth_append)
    moreover have "fst (c3 ! length ?d) = ?lq" by (simp add: c3')
    moreover have "length ?d < length c3" by (simp add: c3')
    ultimately show ?thesis using i(1) by blast
  qed
  have fire: "invoked (process_result c3 res) = [h3]"
    if ne: "?t \<noteq> []" and nq: "?t \<noteq> ?lq" and sub: "str_in ?lp ?t"
      and before: "\<forall>k \<in> set (keys cmds). k \<noteq> ?lp \<longrightarrow> \<not> str_in k ?t"
  proof (cases "?t = ?lp")
    case True
    with g3 have "dict_get c3 ?t = Some h3" by simp
    with ne show ?thesis by (rule invoked_process_result_exact)
  next
    case False
    have "?t \<notin> set (keys cmds)"
    proof
      assume "?t \<in> set (keys cmds)"
      with before False have "\<not> str_in ?t ?t" by blast
      then show False by (simp add: str_in_refl)
    qed
    moreover have "keys c3 = keys (dict_setitem cmds ?lp h3) @ [?lq]"
      by (simp add: c3' keys_def)
    then have "set (keys c3) = insert ?lq (insert ?lp (set (keys cmds)))"
      by (simp add: set_keys_setitem)
    ultimately have "?t \<notin> set (keys c3)" using False nq by simp
    then have "dict_get c3 ?t = None" by (simp add: dict_get_None_iff)
    with ne have "invoked (process_result c3 res) = invoked (partial_match c3 ?t)"
      by (rule invoked_process_result_partial)
    also have "partial_match c3 ?t = partial_match (dict_setitem cmds ?lp h3) ?t"
      unfolding c3'
    proof (rule partial_match_append)
      have "?lp \<in> set (keys (dict_setitem cmds ?lp h3))" by (simp add: set_keys_setitem)
      with sub show "\<exists>k \<in> set (keys (dict_setitem cmds ?lp h3)). str_in k ?t" by blast
    qed
    also have "invoked \<dots> = [h3]"
      using sub before by (rule invoked_partial_match_setitem)
    finally show ?thesis .
  qed
  from k3 g3 g2 order fire show ?thesis by blast
qed

theorem reregister_keeps_position_witness:
  "snd (register_command (snd (register_command (snd (register_command [] ''Spoky'' (1::nat)))
      ''hello'' 2)) ''SPOKY'' 3) = [(''spoky'', 3), (''hello'', 2)] \<and>
   str_in ''hello'' (recognized_text [(''text'', ''well hello spoky there'')]) \<and>
   invoked (process_result
     (snd (register_command (snd (register_command (snd (register_command [] ''Spoky'' (1::nat)))
        ''hello'' 2)) ''SPOKY'' 3))
     [(''text'', ''well hello spoky there'')]) = [3]"
proof -
  let ?c1 = "snd (register_command [] ''Spoky'' (1::nat))"
  let ?c2 = "snd (register_command ?c1 ''hello'' 2)"
  let ?c3 = "snd (register_command ?c2 ''SPOKY'' 3)"
  let ?r = "[(''text'', ''well hello spoky there'')]"
  have pq: "lower ''SPOKY'' \<noteq> lower ''hello''" by code_simp
  have new: "lower ''hello'' \<notin> set (keys ([] :: nat commands))" by (simp add: keys_def)
  have same: "snd (register_command [] ''Spoky'' (1::nat)) = snd (register_command [] ''SPOKY'' 1)"
    by code_simp
  note d = reregister_keeps_position [OF pq new same refl refl, of 2 3 ?r]
  have h: "recognized_text ?r \<noteq> [] \<and> recognized_text ?r \<noteq> lower ''hello'' \<and>
     str_in (lower ''SPOKY'') (recognized_text ?r) \<and>
     (\<forall>k \<in> set (keys ([] :: nat commands)). k \<noteq> lower ''SPOKY'' \<longrightarrow>
        \<not> str_in k (recognized_text ?r))"
    by (simp add: keys_def) code_simp
  have f: "invoked (process_result ?c3 ?r) = [3]"
    by (rule d [THEN conjunct2, THEN conjunct2, THEN conjunct2, THEN conjunct2, THEN mp, OF h])
  have v: "?c3 = [(''spoky'', 3), (''hello'', 2)]" by code_simp
  have s: "str_in ''hello'' (recognized_text ?r)" by code_simp
  from v s f show ?thesis by blast
qed

section \<open>Properties of the pipeline controller\<close>

subsection \<open>Starting\<close>

lemma reachable_idle_without_recognizer:
  "reachable dec s \<Longrightarrow> recognizer s = None \<Longrightarrow>
   \<not> is_listening s \<and> stream s = None \<and> processing_thread s = None"
proof (induction rule: reachable.induct)
  case (r_init model rate bufsize es s)
  then show ?case by (auto simp: init_def split: if_splits)
next
  case (r_start s cb opened)
  then show ?case
    by (auto simp: state_of_def start_listening_def Let_def split: if_splits sum.splits)
next
  case (r_stop s stopped closed)
  then show ?case
    by (auto simp: state_of_def stop_listening_def Let_def
        split: if_splits option.splits sum.splits)
next
  case (r_cleanup s stopped closed finished)
  then show ?case
    by (auto simp: state_of_def cleanup_def stop_listening_def Let_def
        split: if_splits option.splits sum.splits)
next
  case (r_frame s in_data status)
  then show ?case by (auto simp: audio_callback_def)
next
  case (r_worker s callback)
  then show ?case
    by (auto simp: process_audio_body_def Let_def
        split: list.splits option.splits prod.splits sum.splits bool.splits if_splits)
next
  case (r_audio s audio_data)
  then show ?case
    by (auto simp: recognize_from_audio_def
        split: option.splits prod.splits sum.splits bool.splits if_splits)
next
  case (r_file s opened)
  then show ?case
    by (auto simp: state_of_def recognize_from_file_def
        split: option.splits prod.splits sum.splits if_splits)
qed

text \<open>
  Claim C4. Without a recogniser \<^verbatim>\<open>start_listening\<close> returns normally, having logged
  one error and nothing else: it opens no stream, starts no worker and leaves the object
  as it was. A state that the constructor and the methods can produce has, without a
  recogniser, the flag cleared, no stream and no worker, so the pipeline is idle after
  the call.
\<close>

theorem start_listening_without_recognizer:
  "recognizer s = None \<longrightarrow>
     start_listening s cb opened =
       (Inr (), [Log ERROR ''Recognizer not initialized. Cannot start listening.''], s) \<and>
     (reachable dec s \<longrightarrow>
        \<not> is_listening s \<and> stream s = None \<and> processing_thread s = None)"
  by (auto simp: start_listening_def dest: reachable_idle_without_recognizer)

theorem start_listening_without_recognizer_witness:
  "recognizer (idle_state\<lparr>recognizer := None\<rparr>) = None \<and>
   reachable example_decoder (idle_state\<lparr>recognizer := None\<rparr>) \<and>
   start_listening (idle_state\<lparr>recognizer := None\<rparr>) (Some 1) (Inr 7) =
     (Inr (), [Log ERROR ''Recognizer not initialized. Cannot start listening.'' :: unit event],
      idle_state\<lparr>recognizer := None\<rparr>) \<and>
   \<not> is_listening (idle_state\<lparr>recognizer := None\<rparr>)"
proof -
  let ?s = "idle_state\<lparr>recognizer := None\<rparr>"
  have n: "recognizer ?s = None" by simp
  have "init True None 16000 4000 =
      Inr ([Log WARNING
              (''Vosk model not found. Please download a model from '' @
               ''https://alphacephei.com/vosk/models''),
            Log INFO ''Voice recognition initialized'' :: unit event], ?s)"
    by (simp add: init_def idle_state_def)
  then have r: "reachable example_decoder ?s" by (rule reachable.r_init)
  note d = start_listening_without_recognizer [of ?s "Some 1" "Inr 7" example_decoder, THEN mp, OF n]
  from n r d show ?thesis by blast
qed

text \<open>
  Claim C8. \<^verbatim>\<open>start_listening\<close> on a pipeline that is listening returns normally with
  one log record and the object unchanged. After two calls in a row on an idle pipeline
  with a recogniser, the first of which opens the device, the second has changed nothing:
  the two calls together have opened one stream and started one worker thread.
\<close>

theorem start_listening_twice:
  "(is_listening s \<longrightarrow>
      (\<exists>lv msg. start_listening s cb opened = (Inr (), [Log lv msg :: 'h event], s))) \<and>
   (recognizer s \<noteq> None \<and> \<not> is_listening s \<longrightarrow>
      (case start_listening s cb (Inr h) of
         (r1, es1 :: 'h event list, s1) \<Rightarrow>
           (case start_listening s1 cb' opened of
              (r2, es2, s2) \<Rightarrow>
                r1 = Inr () \<and> r2 = Inr () \<and> s2 = s1 \<and>
                is_listening s2 \<and> stream s2 = Some h \<and> processing_thread s2 = Some cb \<and>
                es2 = [Log WARNING ''Already listening''] \<and>
                opens (es1 @ es2) = 1 \<and> thread_starts (es1 @ es2) = 1)))"
  by (auto simp: start_listening_def Let_def)

theorem start_listening_twice_witness:
  "recognizer idle_state \<noteq> None \<and> \<not> is_listening idle_state \<and>
   (case start_listening idle_state (Some 1) (Inr 7) of
      (r1, es1 :: unit event list, s1) \<Rightarrow>
        (case start_listening s1 (Some 2) (Inr 8) of
           (r2, es2, s2) \<Rightarrow>
             s2 = s1 \<and> stream s2 = Some 7 \<and> opens (es1 @ es2) = 1 \<and>
             thread_starts (es1 @ es2) = 1))"
proof -
  have a: "recognizer idle_state \<noteq> None \<and> \<not> is_listening idle_state"
    by (simp add: idle_state_def)
  note d = start_listening_twice [of idle_state "Some 1" "Inr 8" 7 "Some 2",
      where ?'h = unit, THEN conjunct2, THEN mp, OF a]
  from a d show ?thesis by (auto split: prod.splits)
qed

text \<open>
  Claim C10. The flag is set before the device is opened and is not reset when the
  opening fails: the exception of \<^verbatim>\<open>PyAudio.open\<close> leaves \<^verbatim>\<open>start_listening\<close> with the
  flag set, the stream and the worker thread as they were (none, on an idle pipeline),
  and every later call of \<^verbatim>\<open>start_listening\<close> on that state logs a warning and changes
  nothing.
\<close>

theorem start_listening_open_fails:
  "recognizer s \<noteq> None \<and> \<not> is_listening s \<longrightarrow>
     start_listening s cb (Inl e) =
       (Inl e, [PaOpen (sample_rate s) (buffer_size s) :: 'h event], s\<lparr>is_listening := True\<rparr>) \<and>
     stream (s\<lparr>is_listening := True\<rparr>) = stream s \<and>
     processing_thread (s\<lparr>is_listening := True\<rparr>) = processing_thread s \<and>
     (\<forall>cb' opened.
        start_listening (s\<lparr>is_listening := True\<rparr>) cb' opened =
          (Inr (), [Log WARNING ''Already listening'' :: 'h event], s\<lparr>is_listening := True\<rparr>))"
  by (auto simp: start_listening_def Let_def)

theorem start_listening_open_fails_witness:
  "recognizer idle_state \<noteq> None \<and> \<not> is_listening idle_state \<and>
   start_listening idle_state (Some 1) (Inl (OSError ''Invalid input device'')) =
     (Inl (OSError ''Invalid input device''), [PaOpen 16000 4000 :: unit event],
      idle_state\<lparr>is_listening := True\<rparr>) \<and>
   stream (idle_state\<lparr>is_listening := True\<rparr>) = None \<and>
   processing_thread (idle_state\<lparr>is_listening := True\<rparr>) = None \<and>
   start_listening (idle_state\<lparr>is_listening := True\<rparr>) (Some 1) (Inr 7) =
     (Inr (), [Log WARNING ''Already listening'' :: unit event],
      idle_state\<lparr>is_listening := True\<rparr>)"
proof -
  have a: "recognizer idle_state \<noteq> None \<and> \<not> is_listening idle_state"
    by (simp add: idle_state_def)
  note d = start_listening_open_fails [of idle_state "Some 1" "OSError ''Invalid input device''",
      where ?'h = unit, THEN mp, OF a]
  have v: "sample_rate idle_state = 16000" "buffer_size idle_state = 4000"
    "stream idle_state = None" "processing_thread idle_state = None"
    by (simp_all add: idle_state_def)
  from a d v show ?thesis by simp
qed

subsection \<open>Stopping\<close>

text \<open>
  Claim C7, as the code has it. \<^verbatim>\<open>stop_listening\<close> on a pipeline that is not
  listening returns normally, with no event and the object unchanged, whatever the
  device would do. After any call of \<^verbatim>\<open>stop_listening\<close> the flag is cleared, and a
  second call returns normally and changes nothing. When \<^verbatim>\<open>stop_stream\<close>, \<^verbatim>\<open>close\<close> and
  \<^verbatim>\<open>terminate\<close> return normally, \<^verbatim>\<open>stop_listening\<close> and \<^verbatim>\<open>cleanup\<close> return normally,
  and a second \<^verbatim>\<open>cleanup\<close> leaves the state that the first one left. An exception of
  \<^verbatim>\<open>stop_stream\<close>, \<^verbatim>\<open>close\<close> or \<^verbatim>\<open>terminate\<close> is not caught: it reaches the caller.
\<close>

theorem stop_listening_cleanup_idempotent:
  "(\<not> is_listening s \<longrightarrow>
      stop_listening s stopped closed = (Inr (), [] :: 'h event list, s)) \<and>
   (case stop_listening s stopped closed of
      (r1, es1 :: 'h event list, s1) \<Rightarrow>
        \<not> is_listening s1 \<and>
        (stopped = Inr () \<and> closed = Inr () \<longrightarrow> r1 = Inr ()) \<and>
        (case stop_listening s1 stopped' closed' of
           (r2, es2 :: 'h event list, s2) \<Rightarrow> r2 = Inr () \<and> es2 = [] \<and> s2 = s1)) \<and>
   (stopped = Inr () \<and> closed = Inr () \<and> finished = Inr () \<longrightarrow>
      (case cleanup s stopped closed finished of
         (r1, es1 :: 'h event list, s1) \<Rightarrow>
           r1 = Inr () \<and> \<not> is_listening s1 \<and>
           (\<forall>pa. audio s = Some pa \<longrightarrow> audio s1 = Some (pa\<lparr>terminated := True\<rparr>)) \<and>
           (case cleanup s1 stopped' closed' finished' of
              (r2, es2 :: 'h event list, s2) \<Rightarrow>
                s2 = s1 \<and> (finished' = Inr () \<longrightarrow> r2 = Inr ())))) \<and>
   (is_listening s \<longrightarrow>
      (\<forall>h e. stream s = Some h \<and> stopped = Inl e \<longrightarrow>
         stop_listening s stopped closed =
           (Inl e, [StopStream h :: 'h event], s\<lparr>is_listening := False\<rparr>) \<and>
         cleanup s stopped closed finished =
           (Inl e, [StopStream h :: 'h event], s\<lparr>is_listening := False\<rparr>)) \<and>
      (\<forall>h e. stream s = Some h \<and> stopped = Inr () \<and> closed = Inl e \<longrightarrow>
         stop_listening s stopped closed =
           (Inl e, [StopStream h, CloseStream h :: 'h event], s\<lparr>is_listening := False\<rparr>) \<and>
         cleanup s stopped closed finished =
           (Inl e, [StopStream h, CloseStream h :: 'h event], s\<lparr>is_listening := False\<rparr>))) \<and>
   (\<not> is_listening s \<longrightarrow>
      (\<forall>pa e. audio s = Some pa \<and> finished = Inl e \<longrightarrow>
         cleanup s stopped closed finished = (Inl e, [PaTerminate :: 'h event], s)))"
  by (auto simp: cleanup_def stop_listening_def Let_def
      split: option.splits prod.splits sum.splits)

theorem stop_listening_cleanup_idempotent_witness:
  "\<not> is_listening idle_state \<and>
   stop_listening idle_state (Inl (OSError ''Stream closed'')) (Inr ()) =
     (Inr (), [] :: unit event list, idle_state) \<and>
   cleanup (idle_state\<lparr>is_listening := True, stream := Some 7\<rparr>) (Inr ()) (Inr ()) (Inr ()) =
     (Inr (),
      [StopStream 7, CloseStream 7, Log INFO ''Stopped listening'', PaTerminate,
       Log INFO ''Voice recognition cleanup completed'' :: unit event],
      idle_state\<lparr>audio := Some \<lparr>terminated = True\<rparr>\<rparr>) \<and>
   cleanup (idle_state\<lparr>audio := Some \<lparr>terminated = True\<rparr>\<rparr>) (Inr ()) (Inr ()) (Inr ()) =
     (Inr (), [PaTerminate, Log INFO ''Voice recognition cleanup completed'' :: unit event],
      idle_state\<lparr>audio := Some \<lparr>terminated = True\<rparr>\<rparr>)"
proof -
  let ?s = "idle_state\<lparr>is_listening := True, stream := Some 7\<rparr>"
  let ?s1 = "idle_state\<lparr>audio := Some \<lparr>terminated = True\<rparr>\<rparr>"
  let ?ok = "Inr () :: pyexn + unit"
  have a: "\<not> is_listening idle_state" by (simp add: idle_state_def)
  note d = stop_listening_cleanup_idempotent
    [of idle_state "Inl (OSError ''Stream closed'')" ?ok, where ?'h = unit]
  note st = d [THEN conjunct1, THEN mp, OF a]
  have c1: "cleanup ?s ?ok ?ok ?ok =
     (Inr (),
      [StopStream 7, CloseStream 7, Log INFO ''Stopped listening'', PaTerminate,
       Log INFO ''Voice recognition cleanup completed'' :: unit event], ?s1)"
    by (simp add: cleanup_def stop_listening_def idle_state_def)
  have ok: "?ok = Inr () \<and> ?ok = Inr () \<and> ?ok = Inr ()" by simp
  note d2 = stop_listening_cleanup_idempotent
    [of ?s ?ok ?ok ?ok ?ok ?ok ?ok, where ?'h = unit,
      THEN conjunct2, THEN conjunct2, THEN conjunct1, THEN mp, OF ok]
  have c2: "cleanup ?s1 ?ok ?ok ?ok =
     (Inr (), [PaTerminate, Log INFO ''Voice recognition cleanup completed'' :: unit event], ?s1)"
    using d2 unfolding c1
    by (simp add: cleanup_def stop_listening_def idle_state_def split: prod.splits)
  from a st c1 c2 show ?thesis by blast
qed

text \<open>
  Claim C7 as the specification words it does not hold. On a listening pipeline whose
  \<^verbatim>\<open>stop_stream\<close> raises, \<^verbatim>\<open>stop_listening\<close> and \<^verbatim>\<open>cleanup\<close> raise, with the flag
  cleared and the stream still set; a second \<^verbatim>\<open>cleanup\<close> then terminates PyAudio, so
  the state after two calls is not the state after one.
\<close>

theorem stop_listening_raises_counterexample:
  "stop_listening (idle_state\<lparr>is_listening := True, stream := Some 7\<rparr>)
     (Inl (OSError ''Unanticipated host error'')) (Inr ()) =
     (Inl (OSError ''Unanticipated host error''), [StopStream 7 :: unit event],
      idle_state\<lparr>stream := Some 7\<rparr>) \<and>
   cleanup (idle_state\<lparr>is_listening := True, stream := Some 7\<rparr>)
     (Inl (OSError ''Unanticipated host error'')) (Inr ()) (Inr ()) =
     (Inl (OSError ''Unanticipated host error''), [StopStream 7 :: unit event],
      idle_state\<lparr>stream := Some 7\<rparr>) \<and>
   cleanup (idle_state\<lparr>stream := Some 7\<rparr>) (Inr ()) (Inr ()) (Inr ()) =
     (Inr (), [PaTerminate, Log INFO ''Voice recognition cleanup completed'' :: unit event],
      idle_state\<lparr>stream := Some 7, audio := Some \<lparr>terminated = True\<rparr>\<rparr>) \<and>
   idle_state\<lparr>stream := Some 7, audio := Some \<lparr>terminated = True\<rparr>\<rparr> \<noteq>
     idle_state\<lparr>stream := Some 7\<rparr>"
  by (simp add: cleanup_def stop_listening_def idle_state_def)

section \<open>Properties of the file recognition\<close>

text \<open>
  Claim C5, as the code has it. For a file that \<^verbatim>\<open>wave.open\<close> accepts and whose
  container is not mono, not 16-bit or not at the configured sample rate,
  \<^verbatim>\<open>recognize_from_file\<close> returns the empty string and raises nothing; with a
  recogniser it logs the format error, without one it logs nothing. Without a recogniser
  the method returns the empty string before the file is opened, whatever the file is.
  With a recogniser, an exception of \<^verbatim>\<open>wave.open\<close> (a container that is not PCM, a file
  that is no WAV file) is not caught: it reaches the caller, and nothing is logged.
\<close>

theorem recognize_from_file_format_mismatch:
  "(nchannels wav \<noteq> 1 \<or> sampwidth wav \<noteq> 2 \<or> framerate wav \<noteq> sample_rate s \<longrightarrow>
      (recognizer s \<noteq> None \<longrightarrow>
         recognize_from_file dec s (Inr wav) =
           (Inr [], [Log ERROR ''Audio file must be WAV format mono PCM.'' :: 'h event], s)) \<and>
      (recognizer s = None \<longrightarrow>
         recognize_from_file dec s (Inr wav) = (Inr [], [] :: 'h event list, s))) \<and>
   (recognizer s = None \<longrightarrow>
      recognize_from_file dec s opened = (Inr [], [] :: 'h event list, s)) \<and>
   (recognizer s \<noteq> None \<longrightarrow>
      recognize_from_file dec s (Inl e) = (Inl e, [] :: 'h event list, s))"
  by (auto simp: recognize_from_file_def)

theorem recognize_from_file_format_mismatch_witness:
  "nchannels \<lparr>nchannels = 2, sampwidth = 2, framerate = 16000, frames = [1, 0, 2, 0]\<rparr> \<noteq> 1 \<and>
   recognize_from_file example_decoder idle_state
     (Inr \<lparr>nchannels = 2, sampwidth = 2, framerate = 16000, frames = [1, 0, 2, 0]\<rparr>) =
     (Inr [], [Log ERROR ''Audio file must be WAV format mono PCM.'' :: unit event], idle_state) \<and>
   recognizer idle_state \<noteq> None \<and>
   recognize_from_file example_decoder idle_state (Inl (WaveError ''unknown format: 3'')) =
     (Inl (WaveError ''unknown format: 3''), [] :: unit event list, idle_state)"
proof -
  let ?wav = "\<lparr>nchannels = 2, sampwidth = 2, framerate = 16000, frames = [1, 0, 2, 0]\<rparr>"
  have m: "nchannels ?wav \<noteq> 1 \<or> sampwidth ?wav \<noteq> 2 \<or> framerate ?wav \<noteq> sample_rate idle_state"
    by simp
  have r: "recognizer idle_state \<noteq> None" by (simp add: idle_state_def)
  note t = recognize_from_file_format_mismatch [of ?wav idle_state example_decoder
      "Inl (WaveError ''unknown format: 3'')" "WaveError ''unknown format: 3''",
      where ?'h = unit]
  note d = t [THEN conjunct1, THEN mp, OF m, THEN conjunct1, THEN mp, OF r]
  note x = t [THEN conjunct2, THEN conjunct2, THEN mp, OF r]
  from d r x show ?thesis by simp
qed

text \<open>
  Claim C5 as the specification words it does not hold. Without a recogniser the method
  returns the empty string for a two-channel file and logs no error. With a recogniser,
  a two-channel file whose samples are 32-bit floats is refused by \<^verbatim>\<open>wave.open\<close>, and
  the exception leaves the method.
\<close>

theorem recognize_from_file_format_counterexample:
  "nchannels \<lparr>nchannels = 2, sampwidth = 2, framerate = 16000, frames = [1, 0, 2, 0]\<rparr> \<noteq> 1 \<and>
   recognize_from_file example_decoder (idle_state\<lparr>recognizer := None\<rparr>)
     (Inr \<lparr>nchannels = 2, sampwidth = 2, framerate = 16000, frames = [1, 0, 2, 0]\<rparr>) =
     (Inr [], [] :: unit event list, idle_state\<lparr>recognizer := None\<rparr>) \<and>
   recognize_from_file example_decoder idle_state (Inl (WaveError ''unknown format: 3'')) =
     (Inl (WaveError ''unknown format: 3''), [] :: unit event list, idle_state)"
  by (simp add: recognize_from_file_def idle_state_def)

subsection \<open>Chunks\<close>

lemma chunks_Nil: "chunks n [] = []"
  by (simp add: chunks.simps)

lemma chunks_step: "0 < n \<Longrightarrow> xs \<noteq> [] \<Longrightarrow> chunks n xs = take n xs # chunks n (drop n xs)"
  by (subst chunks.simps) simp

lemma concat_chunks: "0 < n \<Longrightarrow> concat (chunks n xs) = xs"
proof (induction n xs rule: chunks.induct)
  case (1 n xs)
  show ?case
  proof (cases "xs = []")
    case True
    then show ?thesis by (simp add: chunks_Nil)
  next
    case False
    with "1" show ?thesis by (simp add: chunks_step)
  qed
qed

lemma length_chunks: "0 < n \<Longrightarrow> c \<in> set (chunks n xs) \<Longrightarrow> 0 < length c \<and> length c \<le> n"
proof (induction n xs rule: chunks.induct)
  case (1 n xs)
  show ?case
  proof (cases "xs = []")
    case True
    with "1.prems" show ?thesis by (simp add: chunks_Nil)
  next
    case False
    with "1" show ?thesis by (auto simp: chunks_step)
  qed
qed

lemma length_butlast_chunks:
  "0 < n \<Longrightarrow> c \<in> set (butlast (chunks n xs)) \<Longrightarrow> length c = n"
proof (induction n xs rule: chunks.induct)
  case (1 n xs)
  show ?case
  proof (cases "xs = []")
    case True
    with "1.prems" show ?thesis by (simp add: chunks_Nil)
  next
    case False
    show ?thesis
    proof (cases "drop n xs = []")
      case True
      with False "1.prems" show ?thesis by (simp add: chunks_step chunks_Nil)
    next
      case d: False
      then have "chunks n (drop n xs) \<noteq> []" using "1.prems"(1) by (simp add: chunks_step)
      with False "1" d show ?thesis by (auto simp: chunks_step)
    qed
  qed
qed

lemma read_loop_final_texts:
  assumes "nchannels wav * sampwidth wav = 2" and "0 < bufsize"
  shows "read_loop dec wav bufsize pos results d =
     (case final_texts dec d (chunks (nat (2 * bufsize)) (drop pos (frames wav))) of
        (Inl e, d') \<Rightarrow> (Inl e, d')
      | (Inr ts, d') \<Rightarrow> (Inr (results @ ts), d'))"
  using assms
proof (induction dec wav bufsize pos results d rule: read_loop.induct)
  case (1 dec wav bufsize pos results d)
  let ?n = "nat (2 * bufsize)"
  let ?rest = "drop pos (frames wav)"
  let ?data = "readframes wav pos bufsize"
  have n: "0 < ?n" using "1.prems" by simp
  have data: "?data = take ?n ?rest"
    using "1.prems" by (simp add: readframes_def Let_def mult.commute)
  show ?case
  proof (cases "?rest = []")
    case True
    then have "?data = []" using data by simp
    then have "read_loop dec wav bufsize pos results d = (Inr results, d)"
      by (subst read_loop.simps) simp
    with True show ?thesis by (simp add: chunks_Nil)
  next
    case False
    then have ne: "?data \<noteq> []" using data n by simp
    have ch: "chunks ?n ?rest = ?data # chunks ?n (drop (pos + length ?data) (frames wav))"
    proof -
      have "drop ?n ?rest = drop (pos + length ?data) (frames wav)"
        by (cases "?n \<le> length ?rest") (simp_all add: data add.commute min_def)
      with False n show ?thesis by (simp add: chunks_step data)
    qed
    obtain x d1 where acc: "AcceptWaveform dec d ?data = (x, d1)" by (cases "AcceptWaveform dec d ?data")
    show ?thesis
    proof (cases x)
      case (Inl e)
      with acc ne show ?thesis
        by (subst read_loop.simps) (simp add: ch)
    next
      case (Inr b)
      show ?thesis
      proof (cases b)
        case False
        have "read_loop dec wav bufsize pos results d =
            read_loop dec wav bufsize (pos + length ?data) results d1"
          using acc Inr False ne by (subst read_loop.simps) simp
        also have "\<dots> = (case final_texts dec d1 (chunks ?n (drop (pos + length ?data) (frames wav))) of
            (Inl e, d') \<Rightarrow> (Inl e, d')
          | (Inr ts, d') \<Rightarrow> (Inr (results @ ts), d'))"
          using "1.IH"(4) [OF refl, of x d1 b] acc Inr False ne "1.prems" by simp
        finally show ?thesis using acc Inr False by (simp add: ch)
      next
        case True
        obtain y d2 where res: "Result dec d1 = (y, d2)" by (cases "Result dec d1")
        show ?thesis
        proof (cases y)
          case (Inl e)
          with acc Inr True res ne show ?thesis
            by (subst read_loop.simps) (simp add: ch)
        next
          case r: (Inr res')
          show ?thesis
          proof (cases "dict_get res' ''text''")
            case None
            have "read_loop dec wav bufsize pos results d =
                read_loop dec wav bufsize (pos + length ?data) results d2"
              using acc Inr True res r None ne by (subst read_loop.simps) simp
            also have "\<dots> = (case final_texts dec d2 (chunks ?n (drop (pos + length ?data) (frames wav))) of
                (Inl e, d') \<Rightarrow> (Inl e, d')
              | (Inr ts, d') \<Rightarrow> (Inr (results @ ts), d'))"
              using "1.IH"(1) [OF refl, of x d1 b y d2 res'] acc Inr True res r None ne "1.prems"
              by simp
            finally show ?thesis using acc Inr True res r None
              by (simp add: ch split: prod.splits sum.splits)
          next
            case (Some t)
            show ?thesis
            proof (cases "t = []")
              case e: True
              have "read_loop dec wav bufsize pos results d =
                  read_loop dec wav bufsize (pos + length ?data) results d2"
                using acc Inr True res r Some e ne by (subst read_loop.simps) simp
              also have "\<dots> = (case final_texts dec d2 (chunks ?n (drop (pos + length ?data) (frames wav))) of
                  (Inl e, d') \<Rightarrow> (Inl e, d')
                | (Inr ts, d') \<Rightarrow> (Inr (results @ ts), d'))"
                using "1.IH"(3) [OF refl, of x d1 b y d2 res' t] acc Inr True res r Some e ne "1.prems"
                by simp
              finally show ?thesis using acc Inr True res r Some e
                by (simp add: ch split: prod.splits sum.splits)
            next
              case e: False
              have "read_loop dec wav bufsize pos results d =
                  read_loop dec wav bufsize (pos + length ?data) (results @ [t]) d2"
                using acc Inr True res r Some e ne by (subst read_loop.simps) simp
              also have "\<dots> = (case final_texts dec d2 (chunks ?n (drop (pos + length ?data) (frames wav))) of
                  (Inl e, d') \<Rightarrow> (Inl e, d')
                | (Inr ts, d') \<Rightarrow> (Inr ((results @ [t]) @ ts), d'))"
                using "1.IH"(2) [OF refl, of x d1 b y d2 res' t] acc Inr True res r Some e ne "1.prems"
                by simp
              finally show ?thesis using acc Inr True res r Some e
                by (simp add: ch split: prod.splits sum.splits)
            qed
          qed
        qed
      qed
    qed
  qed
qed

text \<open>
  Claim C6. For a mono 16-bit file at the configured sample rate, a pipeline with a
  recogniser and a positive buffer size: the data goes to the decoder in chunks of
  \<open>2 * buffer_size\<close> bytes in file order (every chunk but the last has that size, none
  is empty, and together they are the data); the non-empty texts of the results of the
  accepted chunks are collected in order, the non-empty text of \<^verbatim>\<open>FinalResult\<close> is put
  at the end, and the method returns them joined by single blanks. An exception of the
  decoder leaves the method as it is.
\<close>

theorem recognize_from_file_texts:
  assumes "nchannels wav = 1" and "sampwidth wav = 2" and "framerate wav = sample_rate s"
    and "recognizer s = Some d" and "0 < buffer_size s"
  shows "recognize_from_file dec s (Inr wav) =
      (case final_texts dec d (chunks (nat (2 * buffer_size s)) (frames wav)) of
         (Inl e, d1) \<Rightarrow> (Inl e, [] :: 'h event list, s\<lparr>recognizer := Some d1\<rparr>)
       | (Inr ts, d1) \<Rightarrow>
           (case FinalResult dec d1 of
              (Inl e, d2) \<Rightarrow> (Inl e, [], s\<lparr>recognizer := Some d2\<rparr>)
            | (Inr final_result, d2) \<Rightarrow>
                (Inr (join '' ''
                   (ts @ (case dict_get final_result ''text'' of
                            None \<Rightarrow> []
                          | Some t \<Rightarrow> if t \<noteq> [] then [t] else []))),
                 [], s\<lparr>recognizer := Some d2\<rparr>))) \<and>
    concat (chunks (nat (2 * buffer_size s)) (frames wav)) = frames wav \<and>
    (\<forall>c \<in> set (butlast (chunks (nat (2 * buffer_size s)) (frames wav))).
        length c = nat (2 * buffer_size s)) \<and>
    (\<forall>c \<in> set (chunks (nat (2 * buffer_size s)) (frames wav)).
        0 < length c \<and> length c \<le> nat (2 * buffer_size s))"
proof -
  let ?n = "nat (2 * buffer_size s)"
  have n: "0 < ?n" using assms(5) by simp
  have fs: "nchannels wav * sampwidth wav = 2" using assms(1,2) by simp
  have loop: "read_loop dec wav (buffer_size s) 0 [] d =
      (case final_texts dec d (chunks ?n (frames wav)) of
         (Inl e, d') \<Rightarrow> (Inl e, d')
       | (Inr ts, d') \<Rightarrow> (Inr ts, d'))"
    using read_loop_final_texts [OF fs assms(5), of dec 0 "[]" d]
    by (simp split: prod.splits sum.splits)
  have "recognize_from_file dec s (Inr wav) =
      (case final_texts dec d (chunks ?n (frames wav)) of
         (Inl e, d1) \<Rightarrow> (Inl e, [] :: 'h event list, s\<lparr>recognizer := Some d1\<rparr>)
       | (Inr ts, d1) \<Rightarrow>
           (case FinalResult dec d1 of
              (Inl e, d2) \<Rightarrow> (Inl e, [], s\<lparr>recognizer := Some d2\<rparr>)
            | (Inr final_result, d2) \<Rightarrow>
                (Inr (join '' ''
                   (ts @ (case dict_get final_result ''text'' of
                            None \<Rightarrow> []
                          | Some t \<Rightarrow> if t \<noteq> [] then [t] else []))),
                 [], s\<lparr>recognizer := Some d2\<rparr>)))"
    using assms(1-4)
    by (simp add: recognize_from_file_def loop split: prod.splits sum.splits option.splits)
  moreover have "concat (chunks ?n (frames wav)) = frames wav"
    using n by (rule concat_chunks)
  moreover have "\<forall>c \<in> set (butlast (chunks ?n (frames wav))). length c = ?n"
    using length_butlast_chunks [OF n] by blast
  moreover have "\<forall>c \<in> set (chunks ?n (frames wav)). 0 < length c \<and> length c \<le> ?n"
    using length_chunks [OF n] by blast
  ultimately show ?thesis by blast
qed

lemma ex_chunks: "chunks 4 (frames example_wav) = [[1, 1, 1, 1], [2, 2, 2, 0], [3, 0, 3, 0], [5, 5]]"
  by (simp add: example_wav_def chunks_step chunks_Nil)

lemma ex_texts: "final_texts example_decoder 0 [[1, 1, 1, 1], [2, 2, 2, 0], [3, 0, 3, 0], [5, 5]]
   = (Inr [''Hello Spoky''], 1)"
  by (simp add: example_decoder_def)

theorem recognize_from_file_texts_witness:
  "nchannels example_wav = 1 \<and> sampwidth example_wav = 2 \<and>
   framerate example_wav = sample_rate (idle_state\<lparr>buffer_size := 2\<rparr>) \<and>
   recognize_from_file example_decoder (idle_state\<lparr>buffer_size := 2\<rparr>) (Inr example_wav) =
     (Inr ''Hello Spoky goodbye spoky'', [] :: unit event list,
      idle_state\<lparr>buffer_size := 2, recognizer := Some 0\<rparr>)"
proof -
  let ?s = "idle_state\<lparr>buffer_size := 2\<rparr>"
  have v: "nchannels example_wav = 1" "sampwidth example_wav = 2"
    "framerate example_wav = sample_rate ?s"
    by (simp_all add: example_wav_def idle_state_def)
  have r: "recognizer ?s = Some 0" by (simp add: idle_state_def)
  have b: "0 < buffer_size ?s" by simp
  have n: "nat (2 * buffer_size ?s) = 4" by simp
  note d = recognize_from_file_texts [OF v r b, of example_decoder, where ?'h = unit,
      THEN conjunct1, unfolded n ex_chunks ex_texts]
  have "recognize_from_file example_decoder ?s (Inr example_wav) =
     (Inr ''Hello Spoky goodbye spoky'', [] :: unit event list, ?s\<lparr>recognizer := Some 0\<rparr>)"
    using d by (simp add: example_decoder_def)
  with v show ?thesis by simp
qed

section \<open>Properties of the decode loop\<close>

lemma invoked_body_None: "invoked (fst (process_audio_body dec None s)) = []"
  by (simp add: process_audio_body_def Let_def
      split: list.splits option.splits prod.splits sum.splits bool.splits)

lemma body_partial:
  "audio_queue s = data # rest \<Longrightarrow> recognizer s = Some d \<Longrightarrow>
   AcceptWaveform dec d data = (Inr False, d1) \<Longrightarrow>
   process_audio_body dec (Some cb) s = process_audio_body dec None s"
  by (simp add: process_audio_body_def Let_def split: prod.splits sum.splits)

lemma body_final:
  "audio_queue s = data # rest \<Longrightarrow> recognizer s = Some d \<Longrightarrow>
   AcceptWaveform dec d data = (Inr True, d1) \<Longrightarrow> Result dec d1 = (Inr res, d2) \<Longrightarrow>
   process_audio_body dec (Some cb) s =
     ([Log INFO ''Recognition result''] @ (if truthy (dict_get res ''text'') then cb res else []),
      s\<lparr>audio_queue := rest, recognizer := Some d2\<rparr>)"
  by (simp add: process_audio_body_def Let_def)

lemma body_callback_only_final:
  assumes "process_audio_body dec (Some cb) s \<noteq> process_audio_body dec None s"
  shows "\<exists>data rest d d1 res d2 t.
     audio_queue s = data # rest \<and> recognizer s = Some d \<and>
     AcceptWaveform dec d data = (Inr True, d1) \<and> Result dec d1 = (Inr res, d2) \<and>
     dict_get res ''text'' = Some t \<and> t \<noteq> []"
proof (cases "audio_queue s")
  case Nil
  with assms show ?thesis by (simp add: process_audio_body_def)
next
  case (Cons data rest)
  show ?thesis
  proof (cases "recognizer s")
    case None
    with Cons assms show ?thesis by (simp add: process_audio_body_def)
  next
    case (Some d)
    obtain x d1 where acc: "AcceptWaveform dec d data = (x, d1)"
      by (cases "AcceptWaveform dec d data")
    show ?thesis
    proof (cases x)
      case (Inl e)
      with Cons Some acc assms show ?thesis by (simp add: process_audio_body_def)
    next
      case (Inr b)
      show ?thesis
      proof (cases b)
        case False
        with Cons Some acc Inr assms show ?thesis by (simp add: body_partial)
      next
        case True
        obtain y d2 where res: "Result dec d1 = (y, d2)" by (cases "Result dec d1")
        show ?thesis
        proof (cases y)
          case (Inl e)
          with Cons Some acc Inr True res assms show ?thesis
            by (simp add: process_audio_body_def)
        next
          case r: (Inr res')
          have "truthy (dict_get res' ''text'')"
          proof (rule ccontr)
            assume "\<not> truthy (dict_get res' ''text'')"
            with Cons Some acc Inr True res r
            have "process_audio_body dec (Some cb) s = process_audio_body dec None s"
              by (simp add: process_audio_body_def)
            with assms show False by simp
          qed
          then obtain t where t: "dict_get res' ''text'' = Some t" "t \<noteq> []"
            by (cases "dict_get res' ''text''") auto
          have "AcceptWaveform dec d data = (Inr True, d1)" using acc Inr True by simp
          moreover have "Result dec d1 = (Inr res', d2)" using res r by simp
          ultimately show ?thesis using Cons Some t by blast
        qed
      qed
    qed
  qed
qed

lemma invoked_append: "invoked (es @ es') = invoked es @ invoked es'"
  by (induction es rule: invoked.induct) auto

lemma body_not_accepted:
  assumes "\<forall>d data. fst (AcceptWaveform dec d data) \<noteq> Inr True"
  shows "process_audio_body dec (Some cb) s = process_audio_body dec None s"
proof (rule ccontr)
  assume "process_audio_body dec (Some cb) s \<noteq> process_audio_body dec None s"
  then obtain data d d1 where "AcceptWaveform dec d data = (Inr True, d1)"
    using body_callback_only_final [of dec cb s] by blast
  then have "fst (AcceptWaveform dec d data) = Inr True" by simp
  with assms show False by blast
qed

lemma invoked_process_audio_not_accepted:
  assumes "\<forall>d data. fst (AcceptWaveform dec d data) \<noteq> Inr True"
  shows "invoked (fst (process_audio dec (Some cb) n s)) = []"
proof (induction n arbitrary: s)
  case 0
  show ?case by simp
next
  case (Suc n)
  show ?case
  proof (cases "is_listening s")
    case False
    then show ?thesis by simp
  next
    case True
    obtain es s1 where b: "process_audio_body dec (Some cb) s = (es, s1)"
      by (cases "process_audio_body dec (Some cb) s")
    obtain es' s2 where l: "process_audio dec (Some cb) n s1 = (es', s2)"
      by (cases "process_audio dec (Some cb) n s1")
    have "invoked (fst (process_audio_body dec (Some cb) s)) = []"
      by (simp add: body_not_accepted [OF assms] invoked_body_None)
    then have "invoked es = []" using b by simp
    moreover have "invoked es' = []" using Suc.IH [of s1] l by simp
    ultimately show ?thesis using True b l by (simp add: invoked_append)
  qed
qed

text \<open>
  Claim C3. In an iteration of the loop of \<^verbatim>\<open>_process_audio\<close>: when the decoder does
  not accept the frame (a Partial result), the iteration is what it is without a
  callback and calls no handler; when the decoder accepts it, the Final result goes to
  the callback exactly when its text is not empty. An iteration differs from the one
  without a callback only when the decoder accepted the frame and the Final result has a
  non-empty text. A run of the loop with a decoder that accepts nothing calls no
  handler.
\<close>

theorem process_audio_body_dispatch:
  fixes cb :: "result \<Rightarrow> 'h event list"
  shows
    "(\<forall>data rest d d1.
        audio_queue s = data # rest \<and> recognizer s = Some d \<and>
        AcceptWaveform dec d data = (Inr False, d1) \<longrightarrow>
          process_audio_body dec (Some cb) s = process_audio_body dec None s \<and>
          invoked (fst (process_audio_body dec (Some cb) s)) = []) \<and>
     (\<forall>data rest d d1 res d2.
        audio_queue s = data # rest \<and> recognizer s = Some d \<and>
        AcceptWaveform dec d data = (Inr True, d1) \<and> Result dec d1 = (Inr res, d2) \<longrightarrow>
          process_audio_body dec (Some cb) s =
            ([Log INFO ''Recognition result''] @
             (if truthy (dict_get res ''text'') then cb res else []),
             s\<lparr>audio_queue := rest, recognizer := Some d2\<rparr>)) \<and>
     (process_audio_body dec (Some cb) s \<noteq> process_audio_body dec None s \<longrightarrow>
        (\<exists>data rest d d1 res d2 t.
           audio_queue s = data # rest \<and> recognizer s = Some d \<and>
           AcceptWaveform dec d data = (Inr True, d1) \<and> Result dec d1 = (Inr res, d2) \<and>
           dict_get res ''text'' = Some t \<and> t \<noteq> [])) \<and>
     invoked (fst (process_audio_body dec (None :: (result \<Rightarrow> 'h event list) option) s)) = [] \<and>
     ((\<forall>d data. fst (AcceptWaveform dec d data) \<noteq> Inr True) \<longrightarrow>
        (\<forall>n. invoked (fst (process_audio dec (Some cb) n s)) = []))"
proof (intro conjI allI impI)
  fix data rest d d1
  assume a: "audio_queue s = data # rest \<and> recognizer s = Some d \<and>
        AcceptWaveform dec d data = (Inr False, d1)"
  then show eq: "process_audio_body dec (Some cb) s = process_audio_body dec None s"
    by (blast intro: body_partial)
  show "invoked (fst (process_audio_body dec (Some cb) s)) = []"
    unfolding eq by (rule invoked_body_None)
next
  fix data rest d d1 res d2
  assume "audio_queue s = data # rest \<and> recognizer s = Some d \<and>
        AcceptWaveform dec d data = (Inr True, d1) \<and> Result dec d1 = (Inr res, d2)"
  then show "process_audio_body dec (Some cb) s =
            ([Log INFO ''Recognition result''] @
             (if truthy (dict_get res ''text'') then cb res else []),
             s\<lparr>audio_queue := rest, recognizer := Some d2\<rparr>)"
    by (blast intro: body_final)
next
  assume "process_audio_body dec (Some cb) s \<noteq> process_audio_body dec None s"
  then show "\<exists>data rest d d1 res d2 t.
           audio_queue s = data # rest \<and> recognizer s = Some d \<and>
           AcceptWaveform dec d data = (Inr True, d1) \<and> Result dec d1 = (Inr res, d2) \<and>
           dict_get res ''text'' = Some t \<and> t \<noteq> []"
    by (rule body_callback_only_final)
next
  show "invoked (fst (process_audio_body dec (None :: (result \<Rightarrow> 'h event list) option) s)) = []"
    by (rule invoked_body_None)
next
  fix n
  assume "\<forall>d data. fst (AcceptWaveform dec d data) \<noteq> Inr True"
  then show "invoked (fst (process_audio dec (Some cb) n s)) = []"
    by (rule invoked_process_audio_not_accepted)
qed

theorem process_audio_body_dispatch_witness:
  "AcceptWaveform example_decoder 1 [2, 2, 2, 0] = (Inr True, 2) \<and>
   Result example_decoder 2 = (Inr [(''text'', ''Hello Spoky'')], 0) \<and>
   process_audio_body example_decoder
     (Some (process_result [(''hello spoky'', 1::nat), (''goodbye spoky'', 2)]))
     (idle_state\<lparr>is_listening := True, audio_queue := [[2, 2, 2, 0]], recognizer := Some 1\<rparr>) =
     ([Log INFO ''Recognition result'', Log INFO ''Processing command: hello spoky'',
       Log INFO ''Executing command: hello spoky'', Invoke 1],
      idle_state\<lparr>is_listening := True, audio_queue := [], recognizer := Some 0\<rparr>) \<and>
   AcceptWaveform example_decoder 1 [1, 1] = (Inr False, 2) \<and>
   invoked (fst (process_audio_body example_decoder
     (Some (process_result [(''hello spoky'', 1::nat), (''goodbye spoky'', 2)]))
     (idle_state\<lparr>is_listening := True, audio_queue := [[1, 1]], recognizer := Some 1\<rparr>))) = []"
proof -
  let ?cb = "process_result [(''hello spoky'', 1::nat), (''goodbye spoky'', 2)]"
  let ?s = "idle_state\<lparr>is_listening := True, audio_queue := [[2, 2, 2, 0]], recognizer := Some 1\<rparr>"
  let ?s' = "idle_state\<lparr>is_listening := True, audio_queue := [[1, 1]], recognizer := Some 1\<rparr>"
  have a: "AcceptWaveform example_decoder 1 [2, 2, 2, 0] = (Inr True, 2)"
    by (simp add: example_decoder_def)
  have r: "Result example_decoder 2 = (Inr [(''text'', ''Hello Spoky'')], 0)"
    by (simp add: example_decoder_def)
  have f: "audio_queue ?s = [2, 2, 2, 0] # [] \<and> recognizer ?s = Some 1 \<and>
      AcceptWaveform example_decoder 1 [2, 2, 2, 0] = (Inr True, 2) \<and>
      Result example_decoder 2 = (Inr [(''text'', ''Hello Spoky'')], 0)"
    using a r by simp
  have cb: "?cb [(''text'', ''Hello Spoky'')] =
      [Log INFO ''Processing command: hello spoky'',
       Log INFO ''Executing command: hello spoky'', Invoke 1]"
    by code_simp
  note d = process_audio_body_dispatch [of ?s example_decoder ?cb]
  note d2 = d [THEN conjunct2, THEN conjunct1, THEN spec, THEN spec, THEN spec, THEN spec,
      THEN spec, THEN spec, THEN mp, OF f]
  have e1: "process_audio_body example_decoder (Some ?cb) ?s =
      ([Log INFO ''Recognition result'', Log INFO ''Processing command: hello spoky'',
        Log INFO ''Executing command: hello spoky'', Invoke 1],
       idle_state\<lparr>is_listening := True, audio_queue := [], recognizer := Some 0\<rparr>)"
    using d2 cb by (simp add: idle_state_def)
  have a': "AcceptWaveform example_decoder 1 [1, 1] = (Inr False, 2)"
    by (simp add: example_decoder_def)
  have p: "audio_queue ?s' = [1, 1] # [] \<and> recognizer ?s' = Some 1 \<and>
      AcceptWaveform example_decoder 1 [1, 1] = (Inr False, 2)"
    using a' by simp
  note d' = process_audio_body_dispatch [of ?s' example_decoder ?cb]
  note e2 = d' [THEN conjunct1, THEN spec, THEN spec, THEN spec, THEN spec, THEN mp, OF p,
      THEN conjunct2]
  from a r e1 a' e2 show ?thesis by blast
qed

end
